theory Spec2Isabelle
  imports Complex_Main "HOL-Library.Sublist" "HOL-Library.Multiset"
begin

section \<open>Python values used by the rankers\<close>

text \<open>
  A Python \<^verbatim>\<open>str\<close> is a sequence of Unicode code points, so a string is a list of code
  points here. String literals of the source are written as Isabelle strings and turned
  into code points by \<open>cps\<close> (all literals of the source are ASCII).
\<close>

type_synonym pystr = "nat list"

definition cps :: "string \<Rightarrow> pystr" where
  "cps s = map of_char s"

datatype py_error = ValueError | IndexError | TypeError | AttributeError | NotImplementedError

text \<open>
  Character classes of CPython (Unicode 14.0 tables, as inclusive ranges of code points).
  \<^verbatim>\<open>str.isdecimal\<close> holds for the characters of category Nd, which come in runs of ten
  starting at the digit zero; \<^verbatim>\<open>str.isdigit\<close> holds for those and for the characters
  whose numeric type is Digit only (superscripts, circled digits, ...); \<^verbatim>\<open>str.isspace\<close>
  is what \<^verbatim>\<open>strip()\<close> and \<^verbatim>\<open>split()\<close> treat as blank.
\<close>

definition in_ranges :: "nat \<Rightarrow> (nat \<times> nat) list \<Rightarrow> bool" where
  "in_ranges c rs = list_ex (\<lambda>r. fst r \<le> c \<and> c \<le> snd r) rs"

definition decimal_ranges :: "(nat \<times> nat) list" where
  "decimal_ranges = [
    (48, 57), (1632, 1641), (1776, 1785), (1984, 1993), (2406, 2415), (2534, 2543),
    (2662, 2671), (2790, 2799), (2918, 2927), (3046, 3055), (3174, 3183), (3302, 3311),
    (3430, 3439), (3558, 3567), (3664, 3673), (3792, 3801), (3872, 3881), (4160, 4169),
    (4240, 4249), (6112, 6121), (6160, 6169), (6470, 6479), (6608, 6617), (6784, 6793),
    (6800, 6809), (6992, 7001), (7088, 7097), (7232, 7241), (7248, 7257), (42528, 42537),
    (43216, 43225), (43264, 43273), (43472, 43481), (43504, 43513), (43600, 43609),
    (44016, 44025), (65296, 65305), (66720, 66729), (68912, 68921), (69734, 69743),
    (69872, 69881), (69942, 69951), (70096, 70105), (70384, 70393), (70736, 70745),
    (70864, 70873), (71248, 71257), (71360, 71369), (71472, 71481), (71904, 71913),
    (72016, 72025), (72784, 72793), (73040, 73049), (73120, 73129), (92768, 92777),
    (92864, 92873), (93008, 93017), (120782, 120831), (123200, 123209), (123632, 123641),
    (125264, 125273), (130032, 130041)]"

definition other_digit_ranges :: "(nat \<times> nat) list" where
  "other_digit_ranges = [
    (178, 179), (185, 185), (4969, 4977), (6618, 6618), (8304, 8304), (8308, 8313),
    (8320, 8329), (9312, 9320), (9332, 9340), (9352, 9360), (9450, 9450), (9461, 9469),
    (9471, 9471), (10102, 10110), (10112, 10120), (10122, 10130), (68160, 68163),
    (69216, 69224), (69714, 69722), (127232, 127242)]"

definition space_ranges :: "(nat \<times> nat) list" where
  "space_ranges = [
    (9, 13), (28, 32), (133, 133), (160, 160), (5760, 5760), (8192, 8202), (8232, 8233),
    (8239, 8239), (8287, 8287), (12288, 12288)]"

definition py_isdecimal :: "nat \<Rightarrow> bool" where
  "py_isdecimal c = in_ranges c decimal_ranges"

definition py_isdigit :: "nat \<Rightarrow> bool" where
  "py_isdigit c = (py_isdecimal c \<or> in_ranges c other_digit_ranges)"

definition py_isspace :: "nat \<Rightarrow> bool" where
  "py_isspace c = in_ranges c space_ranges"

text \<open>The value of a decimal digit: its offset in its run of ten.\<close>

definition py_decimal :: "nat \<Rightarrow> nat option" where
  "py_decimal c =
     (case find (\<lambda>r. fst r \<le> c \<and> c \<le> snd r) decimal_ranges of
        None \<Rightarrow> None
      | Some r \<Rightarrow> Some ((c - fst r) mod 10))"

text \<open>
  \<^verbatim>\<open>int(x)\<close> on a token of a cleaned response. Such a token is not empty and holds
  no sign, underscore or blank (none of them is a digit), so \<^verbatim>\<open>int\<close> reads it as a
  base-ten numeral and raises \<^verbatim>\<open>ValueError\<close> at a character that has no decimal
  value. Python's integers are unbounded, but CPython refuses, with \<^verbatim>\<open>ValueError\<close>, to
  read a numeral of more than \<^verbatim>\<open>sys.int_info.default_max_str_digits\<close> digits (4300,
  leading zeros counted), a limit the rankers do not change.
\<close>

definition max_str_digits :: nat where
  "max_str_digits = 4300"

fun int_of_digits :: "int \<Rightarrow> pystr \<Rightarrow> py_error + int" where
  "int_of_digits acc [] = Inr acc"
| "int_of_digits acc (c # cs) =
     (case py_decimal c of
        None \<Rightarrow> Inl ValueError
      | Some d \<Rightarrow> int_of_digits (10 * acc + int d) cs)"

definition py_int :: "pystr \<Rightarrow> py_error + int" where
  "py_int x =
     (if x = [] \<or> max_str_digits < length x then Inl ValueError else int_of_digits 0 x)"

text \<open>\<^verbatim>\<open>s.strip()\<close> and \<^verbatim>\<open>s.split()\<close> with no argument.\<close>

definition py_strip :: "pystr \<Rightarrow> pystr" where
  "py_strip s = rev (dropWhile py_isspace (rev (dropWhile py_isspace s)))"

fun split_words :: "pystr \<Rightarrow> pystr \<Rightarrow> pystr list" where
  "split_words w [] = (if w = [] then [] else [w])"
| "split_words w (c # cs) =
     (if py_isspace c then (if w = [] then split_words [] cs else w # split_words [] cs)
      else split_words (w @ [c]) cs)"

definition py_split :: "pystr \<Rightarrow> pystr list" where
  "py_split s = split_words [] s"

text \<open>
  Indexing and slicing of a list with Python's integers: a negative index counts from
  the end, an index out of range raises \<^verbatim>\<open>IndexError\<close>, a slice bound is clamped.
\<close>

definition norm_index :: "nat \<Rightarrow> int \<Rightarrow> nat option" where
  "norm_index n i =
     (if i < 0 then (if 0 \<le> int n + i then Some (nat (int n + i)) else None)
      else (if i < int n then Some (nat i) else None))"

definition py_getitem :: "'a list \<Rightarrow> int \<Rightarrow> py_error + 'a" where
  "py_getitem xs i =
     (case norm_index (length xs) i of None \<Rightarrow> Inl IndexError | Some k \<Rightarrow> Inr (xs ! k))"

definition py_setitem :: "'a list \<Rightarrow> int \<Rightarrow> 'a \<Rightarrow> py_error + 'a list" where
  "py_setitem xs i v =
     (case norm_index (length xs) i of None \<Rightarrow> Inl IndexError | Some k \<Rightarrow> Inr (xs[k := v]))"

definition slice_bound :: "nat \<Rightarrow> int \<Rightarrow> nat" where
  "slice_bound n i = (if i < 0 then nat (int n + i) else min (nat i) n)"

definition py_slice :: "'a list \<Rightarrow> int \<Rightarrow> int \<Rightarrow> 'a list" where
  "py_slice xs start stop =
     take (slice_bound (length xs) stop - slice_bound (length xs) start)
       (drop (slice_bound (length xs) start) xs)"

definition py_slice_to :: "'a list \<Rightarrow> int \<Rightarrow> 'a list" where
  "py_slice_to xs stop = take (slice_bound (length xs) stop) xs"

definition py_range :: "int \<Rightarrow> int list" where
  "py_range n = map int [0..<nat n]"

section \<open>Permutation repair (listwise.py)\<close>

fun clean_chars :: "pystr \<Rightarrow> pystr" where
  "clean_chars [] = []"
| "clean_chars (c # cs) = (if \<not> py_isdigit c then 32 # clean_chars cs else c # clean_chars cs)"

definition clean_response :: "pystr \<Rightarrow> pystr" where
  "clean_response response = py_strip (clean_chars response)"

fun remove_duplicate_loop :: "'a list \<Rightarrow> 'a list \<Rightarrow> 'a list" where
  "remove_duplicate_loop new_response [] = new_response"
| "remove_duplicate_loop new_response (c # cs) =
     remove_duplicate_loop (if c \<notin> set new_response then new_response @ [c] else new_response) cs"

definition remove_duplicate :: "'a list \<Rightarrow> 'a list" where
  "remove_duplicate response = remove_duplicate_loop [] response"

text \<open>The comprehension \<^verbatim>\<open>[int(x) - 1 for x in response.split()]\<close>.\<close>

fun parse_ranks :: "pystr list \<Rightarrow> py_error + int list" where
  "parse_ranks [] = Inr []"
| "parse_ranks (x # xs) =
     (case py_int x of
        Inl e \<Rightarrow> Inl e
      | Inr n \<Rightarrow> (case parse_ranks xs of Inl e \<Rightarrow> Inl e | Inr ns \<Rightarrow> Inr ((n - 1) # ns)))"

text \<open>
  The loop \<^verbatim>\<open>for j, x in enumerate(response): ranking[j + rank_start] = cut_range[x]\<close>.
  The list is updated in place, so the result is the list as the loop leaves it together
  with the exception that stopped it, if any.
\<close>

fun assign_window :: "'a list \<Rightarrow> 'a list \<Rightarrow> int \<Rightarrow> int \<Rightarrow> int list \<Rightarrow> 'a list \<times> py_error option" where
  "assign_window ranking cut_range rank_start j [] = (ranking, None)"
| "assign_window ranking cut_range rank_start j (x # xs) =
     (case py_getitem cut_range x of
        Inl e \<Rightarrow> (ranking, Some e)
      | Inr d \<Rightarrow>
          (case py_setitem ranking (j + rank_start) d of
             Inl e \<Rightarrow> (ranking, Some e)
           | Inr ranking' \<Rightarrow> assign_window ranking' cut_range rank_start (j + 1) xs))"

text \<open>
  \<^verbatim>\<open>receive_permutation(ranking, permutation, rank_start, rank_end)\<close>: the pair of the
  list \<^verbatim>\<open>ranking\<close> after the call and of the exception raised (\<open>None\<close> when the call
  returns, and then it returns that list). The copies made by \<^verbatim>\<open>copy.deepcopy\<close> are
  equal to the documents copied.
\<close>

definition receive_permutation :: "'a list \<Rightarrow> pystr \<Rightarrow> int \<Rightarrow> int \<Rightarrow> 'a list \<times> py_error option" where
  "receive_permutation ranking permutation rank_start rank_end =
     (case parse_ranks (py_split (clean_response permutation)) of
        Inl e \<Rightarrow> (ranking, Some e)
      | Inr parsed \<Rightarrow>
          (let response = remove_duplicate parsed;
               cut_range = py_slice ranking rank_start rank_end;
               original_rank = py_range (int (length cut_range));
               response = filter (\<lambda>ss. ss \<in> set original_rank) response;
               response = response @ filter (\<lambda>tt. tt \<notin> set response) original_rank
           in assign_window ranking cut_range rank_start 0 response))"

text \<open>The repaired response for a window of \<open>m\<close> documents, as the function computes it.\<close>

definition repaired :: "int list \<Rightarrow> nat \<Rightarrow> int list" where
  "repaired parsed m =
     (let r = filter (\<lambda>ss. ss \<in> set (py_range (int m))) (remove_duplicate parsed)
      in r @ filter (\<lambda>tt. tt \<notin> set r) (py_range (int m)))"

text \<open>
  A text that permutation repair can read: \<^verbatim>\<open>int\<close> accepts every token of the cleaned
  text. A text whose digit characters are all decimal digits, and a text with no digit.
\<close>

definition readable :: "pystr \<Rightarrow> bool" where
  "readable s = (case parse_ranks (py_split (clean_response s)) of Inl e \<Rightarrow> False | Inr ns \<Rightarrow> True)"

definition decimal_only :: "pystr \<Rightarrow> bool" where
  "decimal_only s = list_all (\<lambda>c. py_isdigit c \<longrightarrow> py_isdecimal c) s"

definition no_digit :: "pystr \<Rightarrow> bool" where
  "no_digit s = list_all (\<lambda>c. \<not> py_isdigit c) s"

section \<open>Documents\<close>

text \<open>
  \<^verbatim>\<open>SearchResult\<close> is declared in \<^verbatim>\<open>llmrankers/rankers.py\<close>; the rankers use its three
  fields \<^verbatim>\<open>docid\<close>, \<^verbatim>\<open>score\<close> and \<^verbatim>\<open>text\<close> (which may be \<^verbatim>\<open>None\<close>). The scores the
  rankers compute are integers and sums of halves, exact as Python numbers; they are
  rationals here. The documents of a ranking are taken to be distinct objects.
\<close>

record 'id search_result =
  docid :: 'id
  score :: rat
  doc_text :: "pystr option"

section \<open>Prompt budget fitter (listwise.py)\<close>

text \<open>More string primitives: \<^verbatim>\<open>str(n)\<close> of a natural number, \<^verbatim>\<open>sep.join(words)\<close>,
  \<^verbatim>\<open>old in s\<close>, and \<^verbatim>\<open>s.replace(old, new)\<close> for a non-empty \<^verbatim>\<open>old\<close>.\<close>

function digits_of :: "nat \<Rightarrow> pystr" where
  "digits_of n = (if n < 10 then [48 + n] else digits_of (n div 10) @ [48 + n mod 10])"
  by pat_completeness auto
termination
  by (relation "measure id") auto

declare digits_of.simps [simp del]

fun py_join :: "pystr \<Rightarrow> pystr list \<Rightarrow> pystr" where
  "py_join sep [] = []"
| "py_join sep [w] = w"
| "py_join sep (w # ws) = w @ sep @ py_join sep ws"

fun py_contains :: "pystr \<Rightarrow> pystr \<Rightarrow> bool" where
  "py_contains old [] = (old = [])"
| "py_contains old (c # cs) = (prefix old (c # cs) \<or> py_contains old cs)"

function py_replace :: "pystr \<Rightarrow> pystr \<Rightarrow> pystr \<Rightarrow> pystr" where
  "py_replace old new s =
     (if s = [] then []
      else if old \<noteq> [] \<and> prefix old s then new @ py_replace old new (drop (length old) s)
      else hd s # py_replace old new (tl s))"
  by pat_completeness auto
termination
  by (relation "measure (\<lambda>(old, new, s). length s)") auto

declare py_replace.simps [simp del]

definition max_tokens :: "pystr \<Rightarrow> int" where
  "max_tokens model = (if py_contains (cps ''gpt-4'') model then 8192 else 4096)"

text \<open>A chat message is a dictionary, kept as the list of its items in order.\<close>

type_synonym message = "(pystr \<times> pystr) list"

definition chat_message :: "string \<Rightarrow> pystr \<Rightarrow> message" where
  "chat_message role content = [(cps ''role'', cps role), (cps ''content'', content)]"

definition get_post_prompt :: "pystr \<Rightarrow> nat \<Rightarrow> pystr" where
  "get_post_prompt query num =
     cps ''Search Query: '' @ query @ cps ''. '' @ [10] @ cps ''Rank the '' @ digits_of num @
     cps '' passages above based on their relevance to the search query. The passages should be listed in descending order using identifiers. The most relevant passages should be listed first. The output format should be [] > [], e.g., [1] > [2]. Only response the ranking results, do not say any word or explain.''"

definition get_prefix_prompt :: "pystr \<Rightarrow> nat \<Rightarrow> message list" where
  "get_prefix_prompt query num =
     [chat_message ''system''
        (cps ''You are RankGPT, an intelligent assistant that can rank passages based on their relevancy to the query.''),
      chat_message ''user''
        (cps ''I will provide you with '' @ digits_of num @
         cps '' passages, each indicated by number identifier []. '' @ [10] @
         cps ''Rank the passages based on their relevance to query: '' @ query @ cps ''.''),
      chat_message ''assistant'' (cps ''Okay, please provide the passages.'')]"

text \<open>
  \<^verbatim>\<open>num_tokens_from_messages(messages, model)\<close> for a list of messages. The tokenizer is
  the library \<^verbatim>\<open>tiktoken\<close>: \<open>enc m v\<close> stands for \<^verbatim>\<open>len(encoding.encode(v))\<close> with the
  encoding the function picks for the model name \<open>m\<close>.
\<close>

definition count_tokens :: "(pystr \<Rightarrow> pystr \<Rightarrow> nat) \<Rightarrow> pystr \<Rightarrow> int \<Rightarrow> int \<Rightarrow> message list \<Rightarrow> int" where
  "count_tokens enc model tokens_per_message tokens_per_name messages =
     foldl (\<lambda>num_tokens message.
         foldl (\<lambda>num_tokens item.
             num_tokens + int (enc model (snd item)) +
             (if fst item = cps ''name'' then tokens_per_name else 0))
           (num_tokens + tokens_per_message) message)
       0 messages + 3"

definition num_tokens_direct :: "(pystr \<Rightarrow> pystr \<Rightarrow> nat) \<Rightarrow> message list \<Rightarrow> pystr \<Rightarrow> int" where
  "num_tokens_direct enc messages model =
     (if model = cps ''gpt-3.5-turbo-0301'' then count_tokens enc model 4 (- 1) messages
      else if model = cps ''gpt-4-0314'' then count_tokens enc model 3 1 messages
      else count_tokens enc model 0 0 messages)"

definition num_tokens_from_messages :: "(pystr \<Rightarrow> pystr \<Rightarrow> nat) \<Rightarrow> message list \<Rightarrow> pystr \<Rightarrow> int" where
  "num_tokens_from_messages enc messages model =
     (if model = cps ''gpt-3.5-turbo'' then num_tokens_direct enc messages (cps ''gpt-3.5-turbo-0301'')
      else if model = cps ''gpt-4'' then num_tokens_direct enc messages (cps ''gpt-4-0314'')
      else num_tokens_direct enc messages model)"

text \<open>The two messages per document, built by the inner \<^verbatim>\<open>for\<close> loop; \<open>rank\<close> is the
  counter before its increment. A document without text has no \<^verbatim>\<open>replace\<close>.\<close>

fun doc_messages :: "int \<Rightarrow> nat \<Rightarrow> 'id search_result list \<Rightarrow> py_error + message list" where
  "doc_messages max_length rank [] = Inr []"
| "doc_messages max_length rank (doc # docs) =
     (case doc_text doc of
        None \<Rightarrow> Inl AttributeError
      | Some content \<Rightarrow>
          (let content = py_replace (cps ''Title: Content: '') [] content;
               content = py_strip content;
               content = py_join [32] (py_slice_to (py_split content) max_length)
           in case doc_messages max_length (rank + 1) docs of
                Inl e \<Rightarrow> Inl e
              | Inr rest \<Rightarrow>
                  Inr (chat_message ''user'' (cps ''['' @ digits_of (rank + 1) @ cps ''] '' @ content) #
                       chat_message ''assistant''
                         (cps ''Received passage ['' @ digits_of (rank + 1) @ cps ''].'') #
                       rest)))"

definition build_messages :: "pystr \<Rightarrow> 'id search_result list \<Rightarrow> int \<Rightarrow> py_error + message list" where
  "build_messages query docs max_length =
     (case doc_messages max_length 0 docs of
        Inl e \<Rightarrow> Inl e
      | Inr ms \<Rightarrow>
          Inr (get_prefix_prompt query (length docs) @ ms @
               [chat_message ''user'' (get_post_prompt query (length docs))]))"

text \<open>The \<^verbatim>\<open>while True\<close> loop of \<^verbatim>\<open>create_permutation_instruction_chat\<close>, from a given
  \<^verbatim>\<open>max_length\<close>; \<open>None\<close> is a run that never leaves the loop.\<close>

partial_function (option) fit_loop ::
  "(pystr \<Rightarrow> pystr \<Rightarrow> nat) \<Rightarrow> pystr \<Rightarrow> 'id search_result list \<Rightarrow> pystr option \<Rightarrow> int \<Rightarrow>
   (py_error + message list) option" where
  "fit_loop enc query docs model_name max_length =
     (case build_messages query docs max_length of
        Inl e \<Rightarrow> Some (Inl e)
      | Inr messages \<Rightarrow>
          (case model_name of
             None \<Rightarrow> Some (Inr messages)
           | Some model \<Rightarrow>
               if num_tokens_from_messages enc messages model \<le> max_tokens model - 200
               then Some (Inr messages)
               else fit_loop enc query docs model_name (max_length - 1)))"

definition create_permutation_instruction_chat ::
  "(pystr \<Rightarrow> pystr \<Rightarrow> nat) \<Rightarrow> pystr \<Rightarrow> 'id search_result list \<Rightarrow> pystr option \<Rightarrow>
   (py_error + message list) option" where
  "create_permutation_instruction_chat enc query docs model_name =
     fit_loop enc query docs model_name 300"

section \<open>Listwise sliding-window reranker (listwise.py)\<close>

text \<open>
  One attempt of the chat completion call ends with the content of the completion or
  with an exception caught by \<^verbatim>\<open>except Exception\<close>, of which only \<^verbatim>\<open>str(e)\<close> is used.
  The retry loop of \<^verbatim>\<open>OpenAiListwiseLlmRanker.compare\<close> from attempt \<open>n\<close> on; \<open>None\<close> is
  a loop that retries forever.
\<close>

datatype api_outcome = Completion pystr | ApiException pystr

partial_function (option) compare_retry :: "(nat \<Rightarrow> api_outcome) \<Rightarrow> nat \<Rightarrow> pystr option" where
  "compare_retry api n =
     (case api n of
        Completion content \<Rightarrow> Some content
      | ApiException msg \<Rightarrow>
          if py_contains (cps ''This model's maximum context length is'') msg
          then Some (cps ''ERROR::reduce_length'')
          else compare_retry api (Suc n))"

definition openai_compare ::
  "(pystr \<Rightarrow> pystr \<Rightarrow> nat) \<Rightarrow> (message list \<Rightarrow> nat \<Rightarrow> api_outcome) \<Rightarrow> pystr \<Rightarrow> pystr \<Rightarrow>
   'id search_result list \<Rightarrow> (py_error + pystr) option" where
  "openai_compare enc api llm query docs =
     (case create_permutation_instruction_chat enc query docs (Some llm) of
        None \<Rightarrow> None
      | Some (Inl e) \<Rightarrow> Some (Inl e)
      | Some (Inr messages) \<Rightarrow>
          (case compare_retry (api messages) 0 of None \<Rightarrow> None | Some r \<Rightarrow> Some (Inr r)))"

text \<open>
  The state of one \<^verbatim>\<open>rerank\<close> call: the ranking, the counter \<^verbatim>\<open>total_compare\<close>, and
  the start positions of the windows visited so far (a record of the run, kept for the
  coverage statement). \<^verbatim>\<open>rerank\<close> calls \<^verbatim>\<open>self.compare\<close>, which the subclasses
  override: \<open>compare\<close> is a parameter, given the value of the counter before the call,
  the query and the window's documents.
\<close>

record 'id listwise_state =
  ranking_of :: "'id search_result list"
  total_compare :: nat
  visited :: "int list"

partial_function (option) window_loop ::
  "(nat \<Rightarrow> pystr \<Rightarrow> 'id search_result list \<Rightarrow> pystr) \<Rightarrow> pystr \<Rightarrow> int \<Rightarrow> int \<Rightarrow> int \<Rightarrow>
   'id listwise_state \<Rightarrow> (py_error + 'id listwise_state) option" where
  "window_loop compare query window_size step_size start_pos st =
     (if 0 \<le> start_pos then
        (let window_docs = py_slice (ranking_of st) start_pos (start_pos + window_size);
             permutation = compare (total_compare st) query window_docs
         in case receive_permutation (ranking_of st) permutation start_pos (start_pos + window_size) of
              (ranking, Some e) \<Rightarrow> Some (Inl e)
            | (ranking, None) \<Rightarrow>
                window_loop compare query window_size step_size (start_pos - step_size)
                  \<lparr>ranking_of = ranking, total_compare = total_compare st + 1,
                   visited = visited st @ [start_pos]\<rparr>)
      else Some (Inr st))"

text \<open>The body of \<^verbatim>\<open>for _ in range(self.num_repeat)\<close>, and the loop itself.\<close>

definition one_pass ::
  "(nat \<Rightarrow> pystr \<Rightarrow> 'id search_result list \<Rightarrow> pystr) \<Rightarrow> pystr \<Rightarrow> int \<Rightarrow> int \<Rightarrow>
   'id listwise_state \<Rightarrow> (py_error + 'id listwise_state) option" where
  "one_pass compare query window_size step_size st =
     window_loop compare query window_size step_size
       (int (length (ranking_of st)) - window_size) st"

fun passes ::
  "(nat \<Rightarrow> pystr \<Rightarrow> 'id search_result list \<Rightarrow> pystr) \<Rightarrow> pystr \<Rightarrow> int \<Rightarrow> int \<Rightarrow> nat \<Rightarrow>
   'id listwise_state \<Rightarrow> (py_error + 'id listwise_state) option" where
  "passes compare query window_size step_size 0 st = Some (Inr st)"
| "passes compare query window_size step_size (Suc n) st =
     (case one_pass compare query window_size step_size st of
        None \<Rightarrow> None
      | Some (Inl e) \<Rightarrow> Some (Inl e)
      | Some (Inr st') \<Rightarrow> passes compare query window_size step_size n st')"

definition assign_scores :: "'id search_result list \<Rightarrow> 'id search_result list" where
  "assign_scores ranking = map (\<lambda>(i, doc). doc\<lparr>score := - of_nat i\<rparr>) (enumerate 0 ranking)"

definition listwise_rerank ::
  "(nat \<Rightarrow> pystr \<Rightarrow> 'id search_result list \<Rightarrow> pystr) \<Rightarrow> int \<Rightarrow> int \<Rightarrow> int \<Rightarrow> pystr \<Rightarrow>
   'id search_result list \<Rightarrow> (py_error + 'id search_result list) option" where
  "listwise_rerank compare window_size step_size num_repeat query ranking =
     (case passes compare query window_size step_size (nat num_repeat)
             \<lparr>ranking_of = ranking, total_compare = 0, visited = []\<rparr> of
        None \<Rightarrow> None
      | Some (Inl e) \<Rightarrow> Some (Inl e)
      | Some (Inr st) \<Rightarrow> Some (Inr (assign_scores (ranking_of st))))"

text \<open>The window starts of one pass over \<open>n\<close> documents, as the coverage formula gives them.\<close>

definition window_starts :: "int \<Rightarrow> int \<Rightarrow> int \<Rightarrow> int list" where
  "window_starts n window_size step_size =
     map (\<lambda>i. n - window_size - int i * step_size)
       [0..<nat ((n - window_size) div step_size) + 1]"

declare fit_loop.simps [code]
declare compare_retry.simps [code]
declare window_loop.simps [code]

section \<open>Pairwise strategies (pairwise.py)\<close>

text \<open>
  The prompt template of \<^verbatim>\<open>PairwiseLlmRanker\<close>, filled by \<^verbatim>\<open>str.format\<close>, which writes
  \<^verbatim>\<open>None\<close> for a missing text. Code point 34 is the double quote, 10 the line feed.
\<close>

definition format_text :: "pystr option \<Rightarrow> pystr" where
  "format_text t = (case t of None \<Rightarrow> cps ''None'' | Some s \<Rightarrow> s)"

definition prompt_format :: "pystr \<Rightarrow> pystr option \<Rightarrow> pystr option \<Rightarrow> pystr" where
  "prompt_format query doc1 doc2 =
     cps ''Given a query '' @ [34] @ query @ [34] @
     cps '', which of the following two passages is more relevant to the query?'' @ [10, 10] @
     cps ''Passage A: '' @ [34] @ format_text doc1 @ [34] @ [10, 10] @
     cps ''Passage B: '' @ [34] @ format_text doc2 @ [34] @ [10, 10] @
     cps ''Output Passage A or Passage B:''"

text \<open>
  \<^verbatim>\<open>PairwiseLlmRanker.compare\<close>: the counter is incremented, the two prompts are built
  and the model answers with two labels. The model (tokenizer, generation, decoding) is
  outside the repository: \<open>llm total_compare input_texts\<close> is the decoded output of the
  call made when the counter had the value \<open>total_compare\<close>. The result is the output
  and the new value of the counter.
\<close>

definition pairwise_compare ::
  "(nat \<Rightarrow> pystr list \<Rightarrow> pystr list) \<Rightarrow> nat \<Rightarrow> pystr \<Rightarrow> pystr option \<Rightarrow> pystr option \<Rightarrow>
   pystr list \<times> nat" where
  "pairwise_compare llm calls query doc1 doc2 =
     (llm calls [prompt_format query doc1 doc2, prompt_format query doc2 doc1], calls + 1)"

text \<open>A \<^verbatim>\<open>ComparableDoc\<close> is the pair of its \<^verbatim>\<open>docid\<close> and its \<^verbatim>\<open>text\<close>.\<close>

type_synonym 'id comparable_doc = "'id \<times> pystr option"

definition comparable :: "'id search_result \<Rightarrow> 'id comparable_doc" where
  "comparable doc = (docid doc, doc_text doc)"

text \<open>
  The values the key expression of \<^verbatim>\<open>heapSort\<close> handles, and unary minus on them:
  \<^verbatim>\<open>str\<close> has no negation, so \<^verbatim>\<open>-s\<close> raises \<^verbatim>\<open>TypeError\<close>.
\<close>

datatype pyval = PyStr pystr | PyInt int | PyBool bool

fun py_neg :: "pyval \<Rightarrow> py_error + pyval" where
  "py_neg (PyInt n) = Inr (PyInt (- n))"
| "py_neg (PyBool b) = Inr (PyInt (- (if b then 1 else 0)))"
| "py_neg (PyStr s) = Inl TypeError"

text \<open>
  \<^verbatim>\<open>heapSort(arr, k)\<close>. The heap operations are the library \<^verbatim>\<open>heapq\<close>, whose comparisons
  of entries may call the ranker again, so they take and return the counter:
  \<open>heappush calls heap entry\<close> and \<open>heappop calls heap\<close> are parameters, the latter
  for a heap that is not empty (on an empty heap \<^verbatim>\<open>heappop\<close> raises \<^verbatim>\<open>IndexError\<close>).
  The key of an entry is \<^verbatim>\<open>-self.compare("", [doc.text, arr[0].text])[0] == "Passage A"\<close>, that is
  \<^verbatim>\<open>(-(out[0])) == "Passage A"\<close>.
\<close>

fun heap_push_all ::
  "(nat \<Rightarrow> pystr list \<Rightarrow> pystr list) \<Rightarrow>
   (nat \<Rightarrow> (bool \<times> 'id comparable_doc) list \<Rightarrow> bool \<times> 'id comparable_doc \<Rightarrow>
      (bool \<times> 'id comparable_doc) list \<times> nat) \<Rightarrow>
   'id comparable_doc list \<Rightarrow> 'id comparable_doc list \<Rightarrow> (bool \<times> 'id comparable_doc) list \<Rightarrow> nat \<Rightarrow>
   py_error + (bool \<times> 'id comparable_doc) list \<times> nat" where
  "heap_push_all llm heappush arr [] heap calls = Inr (heap, calls)"
| "heap_push_all llm heappush arr (doc # docs) heap calls =
     (case py_getitem arr 0 of
        Inl e \<Rightarrow> Inl e
      | Inr anchor \<Rightarrow>
          (case pairwise_compare llm calls [] (snd doc) (snd anchor) of
             (out, calls1) \<Rightarrow>
               (case py_getitem out 0 of
                  Inl e \<Rightarrow> Inl e
                | Inr label \<Rightarrow>
                    (case py_neg (PyStr label) of
                       Inl e \<Rightarrow> Inl e
                     | Inr v \<Rightarrow>
                         (case heappush calls1 heap (v = PyStr (cps ''Passage A''), doc) of
                            (heap2, calls2) \<Rightarrow> heap_push_all llm heappush arr docs heap2 calls2)))))"

fun heap_pop_n ::
  "(nat \<Rightarrow> (bool \<times> 'id comparable_doc) list \<Rightarrow>
      py_error + (bool \<times> 'id comparable_doc) \<times> (bool \<times> 'id comparable_doc) list \<times> nat) \<Rightarrow>
   nat \<Rightarrow> (bool \<times> 'id comparable_doc) list \<Rightarrow> nat \<Rightarrow> py_error + 'id comparable_doc list \<times> nat" where
  "heap_pop_n heappop 0 heap calls = Inr ([], calls)"
| "heap_pop_n heappop (Suc n) heap calls =
     (case (if heap = [] then Inl IndexError else heappop calls heap) of
        Inl e \<Rightarrow> Inl e
      | Inr (entry, heap1, calls1) \<Rightarrow>
          (case heap_pop_n heappop n heap1 calls1 of
             Inl e \<Rightarrow> Inl e
           | Inr (sorted_arr, calls2) \<Rightarrow> Inr (snd entry # sorted_arr, calls2)))"

definition heapSort ::
  "(nat \<Rightarrow> pystr list \<Rightarrow> pystr list) \<Rightarrow>
   (nat \<Rightarrow> (bool \<times> 'id comparable_doc) list \<Rightarrow> bool \<times> 'id comparable_doc \<Rightarrow>
      (bool \<times> 'id comparable_doc) list \<times> nat) \<Rightarrow>
   (nat \<Rightarrow> (bool \<times> 'id comparable_doc) list \<Rightarrow>
      py_error + (bool \<times> 'id comparable_doc) \<times> (bool \<times> 'id comparable_doc) list \<times> nat) \<Rightarrow>
   'id comparable_doc list \<Rightarrow> int \<Rightarrow> nat \<Rightarrow> py_error + 'id comparable_doc list \<times> nat" where
  "heapSort llm heappush heappop arr k calls =
     (case heap_push_all llm heappush arr arr [] calls of
        Inl e \<Rightarrow> Inl e
      | Inr (heap, calls1) \<Rightarrow> heap_pop_n heappop (nat k) heap calls1)"

text \<open>
  \<^verbatim>\<open>bubblesort(query, ranking, k)\<close>: the inner loop over \<open>j\<close>, which reads \<^verbatim>\<open>arr[j]\<close> and
  \<^verbatim>\<open>arr[j + 1]\<close> and swaps them when the first label is \<^verbatim>\<open>Passage B\<close>, the outer loop
  over \<open>i\<close>, and the slice assignment \<^verbatim>\<open>ranking[:k] = [...]\<close> that rewrites the caller's
  list.
\<close>

fun bubble_inner ::
  "(nat \<Rightarrow> pystr list \<Rightarrow> pystr list) \<Rightarrow> pystr \<Rightarrow> int list \<Rightarrow> 'id comparable_doc list \<Rightarrow> nat \<Rightarrow>
   py_error + 'id comparable_doc list \<times> nat" where
  "bubble_inner llm query [] arr calls = Inr (arr, calls)"
| "bubble_inner llm query (j # js) arr calls =
     (case norm_index (length arr) j of
        None \<Rightarrow> Inl IndexError
      | Some p \<Rightarrow>
          (case norm_index (length arr) (j + 1) of
             None \<Rightarrow> Inl IndexError
           | Some q \<Rightarrow>
               (case pairwise_compare llm calls query (snd (arr ! p)) (snd (arr ! q)) of
                  (out, calls1) \<Rightarrow>
                    (case py_getitem out 0 of
                       Inl e \<Rightarrow> Inl e
                     | Inr label \<Rightarrow>
                         bubble_inner llm query js
                           (if label = cps ''Passage B'' then arr[p := arr ! q, q := arr ! p] else arr)
                           calls1))))"

fun bubble_outer ::
  "(nat \<Rightarrow> pystr list \<Rightarrow> pystr list) \<Rightarrow> pystr \<Rightarrow> int \<Rightarrow> int list \<Rightarrow> 'id comparable_doc list \<Rightarrow> nat \<Rightarrow>
   py_error + 'id comparable_doc list \<times> nat" where
  "bubble_outer llm query k [] arr calls = Inr (arr, calls)"
| "bubble_outer llm query k (i # is) arr calls =
     (case bubble_inner llm query (py_range (k - i - 1)) arr calls of
        Inl e \<Rightarrow> Inl e
      | Inr (arr1, calls1) \<Rightarrow> bubble_outer llm query k is arr1 calls1)"

definition top_results :: "'id comparable_doc list \<Rightarrow> 'id search_result list" where
  "top_results arr =
     map (\<lambda>(i, doc). \<lparr>docid = fst doc, score = - of_nat i, doc_text = None\<rparr>) (enumerate 0 arr)"

definition bubblesort ::
  "(nat \<Rightarrow> pystr list \<Rightarrow> pystr list) \<Rightarrow> pystr \<Rightarrow> 'id search_result list \<Rightarrow> int \<Rightarrow> nat \<Rightarrow>
   py_error + 'id search_result list \<times> nat" where
  "bubblesort llm query ranking k calls =
     (case bubble_outer llm query k (py_range k) (map comparable (py_slice_to ranking k)) calls of
        Inl e \<Rightarrow> Inl e
      | Inr (arr, calls1) \<Rightarrow>
          Inr (top_results arr @ drop (slice_bound (length ranking) k) ranking, calls1))"

text \<open>
  The all-pairs branch. \<^verbatim>\<open>itertools.combinations(ranking, 2)\<close>, the list of prompts, and
  the scoring loop over the decoded outputs, which reads \<^verbatim>\<open>doc_pairs[i//2]\<close>,
  \<^verbatim>\<open>outputs[i]\<close> and \<^verbatim>\<open>outputs[i + 1]\<close>. The dictionary \<^verbatim>\<open>scores\<close> is a
  \<^verbatim>\<open>defaultdict(float)\<close>, kept as the list of its items in insertion order. The batched
  generation (data loader, model, decoding) is outside the repository: \<open>generate\<close> maps the
  list of prompts to the list of decoded outputs.
\<close>

fun combinations2 :: "'a list \<Rightarrow> ('a \<times> 'a) list" where
  "combinations2 [] = []"
| "combinations2 (x # xs) = map (Pair x) xs @ combinations2 xs"

fun pair_prompts :: "pystr \<Rightarrow> ('id search_result \<times> 'id search_result) list \<Rightarrow> pystr list" where
  "pair_prompts query [] = []"
| "pair_prompts query ((doc1, doc2) # ps) =
     prompt_format query (doc_text doc1) (doc_text doc2) #
     prompt_format query (doc_text doc2) (doc_text doc1) # pair_prompts query ps"

fun add_score :: "('id \<times> rat) list \<Rightarrow> 'id \<Rightarrow> rat \<Rightarrow> ('id \<times> rat) list" where
  "add_score [] key v = [(key, 0 + v)]"
| "add_score ((key', s) # rest) key v =
     (if key' = key then (key', s + v) # rest else (key', s) # add_score rest key v)"

fun score_loop ::
  "('id \<times> rat) list \<Rightarrow> ('id search_result \<times> 'id search_result) list \<Rightarrow> pystr list \<Rightarrow>
   py_error + ('id \<times> rat) list" where
  "score_loop scores doc_pairs [] = Inr scores"
| "score_loop scores [] (output1 # outputs) = Inl IndexError"
| "score_loop scores ((doc1, doc2) # doc_pairs) [output1] = Inl IndexError"
| "score_loop scores ((doc1, doc2) # doc_pairs) (output1 # output2 # outputs) =
     score_loop
       (if output1 = cps ''Passage A'' \<and> output2 = cps ''Passage B''
        then add_score scores (docid doc1) 1
        else if output1 = cps ''Passage B'' \<and> output2 = cps ''Passage A''
        then add_score scores (docid doc2) 1
        else add_score (add_score scores (docid doc1) (1 / 2)) (docid doc2) (1 / 2))
       doc_pairs outputs"

text \<open>\<^verbatim>\<open>sorted(xs, key=..., reverse=True)\<close>: stable, largest key first.\<close>

definition sorted_reverse :: "('a \<Rightarrow> rat) \<Rightarrow> 'a list \<Rightarrow> 'a list" where
  "sorted_reverse key xs = rev (sort_key key (rev xs))"

definition allpair_scores ::
  "(pystr list \<Rightarrow> pystr list) \<Rightarrow> pystr \<Rightarrow> 'id search_result list \<Rightarrow> py_error + ('id \<times> rat) list" where
  "allpair_scores generate query ranking =
     score_loop [] (combinations2 ranking)
       (generate (pair_prompts query (combinations2 ranking)))"

definition allpair ::
  "(pystr list \<Rightarrow> pystr list) \<Rightarrow> pystr \<Rightarrow> 'id search_result list \<Rightarrow> py_error + 'id search_result list" where
  "allpair generate query ranking =
     (case allpair_scores generate query ranking of
        Inl e \<Rightarrow> Inl e
      | Inr scores \<Rightarrow>
          Inr (sorted_reverse score
                 (map (\<lambda>(d, s). \<lparr>docid = d, score = s, doc_text = None\<rparr>) scores)))"

text \<open>The result merger at the end of \<^verbatim>\<open>rerank\<close>: its two loops, on the triple of
  \<^verbatim>\<open>results\<close>, \<^verbatim>\<open>top_doc_ids\<close> and \<^verbatim>\<open>rank\<close>.\<close>

fun merge_top ::
  "'id search_result list \<Rightarrow> 'id search_result list \<times> 'id set \<times> int \<Rightarrow>
   'id search_result list \<times> 'id set \<times> int" where
  "merge_top [] acc = acc"
| "merge_top (doc # docs) (results, top_doc_ids, rank) =
     merge_top docs
       (results @ [\<lparr>docid = docid doc, score = - of_int rank, doc_text = None\<rparr>],
        insert (docid doc) top_doc_ids, rank + 1)"

fun merge_rest ::
  "'id search_result list \<Rightarrow> 'id search_result list \<times> 'id set \<times> int \<Rightarrow>
   'id search_result list \<times> 'id set \<times> int" where
  "merge_rest [] acc = acc"
| "merge_rest (doc # docs) (results, top_doc_ids, rank) =
     merge_rest docs
       (if docid doc \<notin> top_doc_ids
        then (results @ [\<lparr>docid = docid doc, score = - of_int rank, doc_text = None\<rparr>],
              top_doc_ids, rank + 1)
        else (results, top_doc_ids, rank))"

definition merge_results :: "'id search_result list \<Rightarrow> 'id search_result list \<Rightarrow> int \<Rightarrow> 'id search_result list" where
  "merge_results ranking original_ranking k =
     fst (merge_rest original_ranking (merge_top (py_slice_to ranking k) ([], {}, 1)))"

text \<open>
  \<^verbatim>\<open>PairwiseLlmRanker.rerank\<close>: \<open>method\<close> and \<open>k\<close> are the fields of the ranker. The
  result is the returned list, or the exception raised.
\<close>

definition pairwise_rerank ::
  "(nat \<Rightarrow> pystr list \<Rightarrow> pystr list) \<Rightarrow> (pystr list \<Rightarrow> pystr list) \<Rightarrow>
   (nat \<Rightarrow> (bool \<times> 'id comparable_doc) list \<Rightarrow> bool \<times> 'id comparable_doc \<Rightarrow>
      (bool \<times> 'id comparable_doc) list \<times> nat) \<Rightarrow>
   (nat \<Rightarrow> (bool \<times> 'id comparable_doc) list \<Rightarrow>
      py_error + (bool \<times> 'id comparable_doc) \<times> (bool \<times> 'id comparable_doc) list \<times> nat) \<Rightarrow>
   pystr \<Rightarrow> int \<Rightarrow> pystr \<Rightarrow> 'id search_result list \<Rightarrow> py_error + 'id search_result list" where
  "pairwise_rerank llm generate heappush heappop method k query ranking =
     (if method = cps ''allpair'' then
        (case allpair generate query ranking of
           Inl e \<Rightarrow> Inl e
         | Inr ranking1 \<Rightarrow> Inr (merge_results ranking1 ranking k))
      else if method = cps ''heapsort'' then
        (case heapSort llm heappush heappop (map comparable ranking) k 0 of
           Inl e \<Rightarrow> Inl e
         | Inr (arr, calls) \<Rightarrow> Inr (merge_results (top_results (rev arr)) ranking k))
      else if method = cps ''bubblesort'' then
        (case bubblesort llm query ranking k 0 of
           Inl e \<Rightarrow> Inl e
         | Inr (ranking1, calls) \<Rightarrow> Inr (merge_results ranking1 ranking k))
      else Inl NotImplementedError)"

text \<open>A message without a \<^verbatim>\<open>name\<close> key, as all messages of the prompt are.\<close>

definition no_name :: "message \<Rightarrow> bool" where
  "no_name message = list_all (\<lambda>item. fst item \<noteq> cps ''name'') message"

text \<open>The results the merger builds for a list of document ids, from a first rank on.\<close>

definition ranked_from :: "int \<Rightarrow> 'id list \<Rightarrow> 'id search_result list" where
  "ranked_from rank ids =
     map (\<lambda>(i, x). \<lparr>docid = x, score = - of_int (rank + int i), doc_text = None\<rparr>) (enumerate 0 ids)"

definition merged_ids :: "'id list \<Rightarrow> 'id list \<Rightarrow> 'id list" where
  "merged_ids tops orig = tops @ filter (\<lambda>x. x \<notin> set tops) orig"

text \<open>A ranking of four documents, for concrete runs.\<close>

definition example_ranking :: "nat search_result list" where
  "example_ranking =
     [\<lparr>docid = 1, score = 0, doc_text = Some (cps ''a'')\<rparr>,
      \<lparr>docid = 2, score = 0, doc_text = Some (cps ''b'')\<rparr>,
      \<lparr>docid = 3, score = 0, doc_text = Some (cps ''c'')\<rparr>,
      \<lparr>docid = 4, score = 0, doc_text = Some (cps ''d'')\<rparr>]"

section \<open>Facts about the Python primitives\<close>

lemma slice_bound_le: "slice_bound n i \<le> n"
  by (auto simp: slice_bound_def)

lemma length_py_slice:
  "length (py_slice xs a b) = slice_bound (length xs) b - slice_bound (length xs) a"
  using slice_bound_le [of "length xs" b] by (simp add: py_slice_def)

lemma window_index:
  assumes "- int n \<le> rs" and "i < slice_bound n re - slice_bound n rs"
  shows "norm_index n (int i + rs) = Some (slice_bound n rs + i)"
  using assms slice_bound_le [of n re]
  by (auto simp: norm_index_def slice_bound_def split: if_splits)

lemma set_remove_duplicate_loop:
  "set (remove_duplicate_loop acc xs) = set acc \<union> set xs"
  by (induction xs arbitrary: acc) auto

lemma distinct_remove_duplicate_loop:
  "distinct acc \<Longrightarrow> distinct (remove_duplicate_loop acc xs)"
  by (induction xs arbitrary: acc) auto

lemma distinct_remove_duplicate: "distinct (remove_duplicate xs)"
  by (simp add: remove_duplicate_def distinct_remove_duplicate_loop)

lemma set_py_range: "set (py_range (int m)) = int ` {0..<m}"
  by (simp add: py_range_def)

lemma distinct_py_range: "distinct (py_range n)"
  by (simp add: py_range_def distinct_map inj_on_def)

lemma distinct_repaired: "distinct (repaired parsed m)"
  by (auto simp: repaired_def Let_def distinct_remove_duplicate distinct_py_range)

lemma set_repaired: "set (repaired parsed m) = int ` {0..<m}"
  by (auto simp: repaired_def Let_def set_py_range)

lemma length_repaired: "length (repaired parsed m) = m"
proof -
  have "length (repaired parsed m) = card (set (repaired parsed m))"
    by (simp add: distinct_card distinct_repaired)
  also have "\<dots> = m"
    by (simp add: set_repaired card_image)
  finally show ?thesis .
qed

lemma assign_window_ok:
  assumes "\<forall>x\<in>set xs. 0 \<le> x \<and> x < int (length cr)"
    and "\<forall>i<length xs. norm_index (length ranking) (int (j + i) + rs) = Some (s + j + i)"
  shows "assign_window ranking cr rs (int j) xs =
           (take (s + j) ranking @ map (\<lambda>x. cr ! nat x) xs @ drop (s + j + length xs) ranking, None)"
  using assms
proof (induction xs arbitrary: ranking j)
  case Nil
  then show ?case by simp
next
  case (Cons x xs)
  have x: "py_getitem cr x = Inr (cr ! nat x)"
    using Cons.prems(1) by (simp add: py_getitem_def norm_index_def)
  have ix: "norm_index (length ranking) (int j + rs) = Some (s + j)"
    using Cons.prems(2) [rule_format, of 0] by simp
  then have lt: "s + j < length ranking"
    by (auto simp: norm_index_def split: if_splits)
  have set: "py_setitem ranking (int j + rs) (cr ! nat x) = Inr (ranking[s + j := cr ! nat x])"
    using ix by (simp add: py_setitem_def)
  have step: "\<forall>i<length xs. norm_index (length (ranking[s + j := cr ! nat x])) (int (Suc j + i) + rs) = Some (s + Suc j + i)"
  proof (intro allI impI)
    fix i assume "i < length xs"
    then have "norm_index (length ranking) (int (j + Suc i) + rs) = Some (s + j + Suc i)"
      using Cons.prems(2) [rule_format, of "Suc i"] by simp
    then show "norm_index (length (ranking[s + j := cr ! nat x])) (int (Suc j + i) + rs) = Some (s + Suc j + i)"
      by (simp add: add.commute add.left_commute)
  qed
  have ih: "assign_window (ranking[s + j := cr ! nat x]) cr rs (int (Suc j)) xs =
      (take (s + Suc j) (ranking[s + j := cr ! nat x]) @ map (\<lambda>x. cr ! nat x) xs @
       drop (s + Suc j + length xs) (ranking[s + j := cr ! nat x]), None)"
    using Cons.IH [OF _ step] Cons.prems(1) by simp
  have tk: "take (s + Suc j) (ranking[s + j := cr ! nat x]) = take (s + j) ranking @ [cr ! nat x]"
    using lt by (simp add: take_Suc_conv_app_nth)
  have "int j + 1 = int (Suc j)" by simp
  then show ?case
    using x set ih tk by (simp add: add.commute)
qed

section \<open>Parsing the cleaned response\<close>

lemma py_isspace_32: "py_isspace 32"
  by (simp add: py_isspace_def in_ranges_def space_ranges_def)

lemma split_words_spaces: "list_all py_isspace s \<Longrightarrow> split_words [] s = []"
  by (induction s) auto

lemma set_py_strip: "set (py_strip s) \<subseteq> set s"
proof
  fix c assume "c \<in> set (py_strip s)"
  then have "c \<in> set (dropWhile py_isspace (rev (dropWhile py_isspace s)))"
    by (simp add: py_strip_def)
  then have "c \<in> set (rev (dropWhile py_isspace s))"
    by (rule set_dropWhileD)
  then have "c \<in> set (dropWhile py_isspace s)"
    by simp
  then show "c \<in> set s"
    by (rule set_dropWhileD)
qed

lemma set_clean_chars: "set (clean_chars s) \<subseteq> insert 32 {c \<in> set s. py_isdigit c}"
  by (induction s) auto

lemma clean_no_digit: "no_digit s \<Longrightarrow> list_all py_isspace (clean_chars s)"
  by (induction s) (auto simp: no_digit_def py_isspace_32)

lemma parse_no_digit:
  assumes "no_digit s"
  shows "parse_ranks (py_split (clean_response s)) = Inr []"
proof -
  have "list_all py_isspace (clean_response s)"
    using clean_no_digit [OF assms] set_py_strip [of "clean_chars s"]
    by (auto simp: clean_response_def list_all_iff)
  then show ?thesis
    by (simp add: py_split_def split_words_spaces)
qed

lemma split_words_chars:
  "x \<in> set (split_words w s) \<Longrightarrow> x \<noteq> [] \<and> set x \<subseteq> set w \<union> {c \<in> set s. \<not> py_isspace c}"
proof (induction s arbitrary: w)
  case Nil
  then show ?case by (auto split: if_splits)
next
  case (Cons c cs)
  show ?case
  proof (cases "py_isspace c")
    case True
    then show ?thesis using Cons.prems Cons.IH [of "[]"]
      by (auto split: if_splits)
  next
    case False
    then show ?thesis using Cons.prems Cons.IH [of "w @ [c]"]
      by auto
  qed
qed

lemma py_decimal_Some:
  assumes "py_isdecimal c"
  shows "\<exists>d. py_decimal c = Some d"
proof -
  have "find (\<lambda>r. fst r \<le> c \<and> c \<le> snd r) decimal_ranges \<noteq> None"
    using assms unfolding py_isdecimal_def in_ranges_def list_ex_iff find_None_iff by blast
  then show ?thesis
    by (auto simp: py_decimal_def)
qed

lemma int_of_digits_decimal:
  "list_all py_isdecimal x \<Longrightarrow> \<exists>n. int_of_digits acc x = Inr n"
proof (induction x arbitrary: acc)
  case Nil
  then show ?case by simp
next
  case (Cons c cs)
  then obtain d where "py_decimal c = Some d"
    using py_decimal_Some [of c] by auto
  then show ?case using Cons by simp
qed

lemma parse_ranks_decimal:
  "\<forall>x\<in>set xs. x \<noteq> [] \<and> length x \<le> max_str_digits \<and> list_all py_isdecimal x \<Longrightarrow>
   \<exists>ns. parse_ranks xs = Inr ns"
proof (induction xs)
  case Nil
  then show ?case by simp
next
  case (Cons x xs)
  then obtain n where "py_int x = Inr n"
    using int_of_digits_decimal [of x 0] by (auto simp: py_int_def)
  moreover obtain ns where "parse_ranks xs = Inr ns"
    using Cons by auto
  ultimately show ?case by simp
qed

lemma split_words_length:
  "x \<in> set (split_words w s) \<Longrightarrow> length x \<le> length w + length s"
proof (induction s arbitrary: w)
  case Nil
  then show ?case by (auto split: if_splits)
next
  case (Cons c cs)
  show ?case
  proof (cases "py_isspace c")
    case True
    then show ?thesis using Cons.prems Cons.IH [of "[]"]
      by (auto split: if_splits)
  next
    case False
    then show ?thesis using Cons.prems Cons.IH [of "w @ [c]"]
      by auto
  qed
qed

lemma length_clean_response: "length (clean_response s) \<le> length s"
proof -
  have "length (clean_chars s) = length s"
    by (induction s) auto
  moreover have "length (py_strip t) \<le> length t" for t
    using length_dropWhile_le [of py_isspace "rev (dropWhile py_isspace t)"]
      length_dropWhile_le [of py_isspace t]
    by (simp add: py_strip_def)
  ultimately show ?thesis
    by (metis clean_response_def)
qed

lemma parse_decimal_only:
  assumes "decimal_only s" and "length s \<le> max_str_digits"
  shows "\<exists>ns. parse_ranks (py_split (clean_response s)) = Inr ns"
proof (rule parse_ranks_decimal, intro ballI)
  fix x assume mem: "x \<in> set (py_split (clean_response s))"
  then have x: "x \<noteq> []" and sub: "set x \<subseteq> {c \<in> set (clean_response s). \<not> py_isspace c}"
    using split_words_chars [of x "[]" "clean_response s"] by (auto simp: py_split_def)
  have "length x \<le> length (clean_response s)"
    using split_words_length [of x "[]" "clean_response s"] mem by (simp add: py_split_def)
  then have len: "length x \<le> max_str_digits"
    using length_clean_response [of s] assms(2) by simp
  have "py_isdecimal c" if "c \<in> set x" for c
  proof -
    have c: "c \<in> set (clean_chars s)" and ns: "\<not> py_isspace c"
      using sub that set_py_strip [of "clean_chars s"] by (auto simp: clean_response_def)
    then have "c \<noteq> 32" using py_isspace_32 by auto
    then have "c \<in> set s" and "py_isdigit c"
      using c set_clean_chars [of s] by auto
    then show ?thesis using assms(1) by (auto simp: decimal_only_def list_all_iff)
  qed
  then show "x \<noteq> [] \<and> length x \<le> max_str_digits \<and> list_all py_isdecimal x"
    using x len by (simp add: list_all_iff)
qed

lemma readable_decimal_only:
  "decimal_only s \<Longrightarrow> length s \<le> max_str_digits \<Longrightarrow> readable s"
  using parse_decimal_only [of s] by (auto simp: readable_def)

lemma readable_no_digit: "no_digit s \<Longrightarrow> readable s"
  by (simp add: readable_def parse_no_digit)

section \<open>Permutation repair: what the call leaves in the list\<close>

lemma receive_permutation_repaired:
  "receive_permutation ranking text rs re =
     (case parse_ranks (py_split (clean_response text)) of
        Inl e \<Rightarrow> (ranking, Some e)
      | Inr parsed \<Rightarrow>
          assign_window ranking (py_slice ranking rs re) rs 0
            (repaired parsed (length (py_slice ranking rs re))))"
  by (simp add: receive_permutation_def repaired_def Let_def split: sum.splits)

lemma repaired_in_range: "x \<in> set (repaired parsed m) \<Longrightarrow> 0 \<le> x \<and> x < int m"
  by (auto simp: set_repaired)

lemma receive_permutation_ok:
  assumes parse: "parse_ranks (py_split (clean_response text)) = Inr parsed"
    and rs: "- int (length ranking) \<le> rs"
  shows "receive_permutation ranking text rs re =
     (take (slice_bound (length ranking) rs) ranking @
      map (\<lambda>x. py_slice ranking rs re ! nat x) (repaired parsed (length (py_slice ranking rs re))) @
      drop (slice_bound (length ranking) rs + length (py_slice ranking rs re)) ranking, None)"
proof -
  let ?cr = "py_slice ranking rs re"
  let ?xs = "repaired parsed (length ?cr)"
  have a: "\<forall>x\<in>set ?xs. 0 \<le> x \<and> x < int (length ?cr)"
    using repaired_in_range by blast
  have b: "\<forall>i<length ?xs. norm_index (length ranking) (int (0 + i) + rs) =
             Some (slice_bound (length ranking) rs + 0 + i)"
    using window_index [OF rs] by (simp add: length_repaired length_py_slice)
  show ?thesis
    using assign_window_ok [OF a b] parse
    by (simp add: receive_permutation_repaired length_repaired)
qed

lemma receive_permutation_below:
  assumes parse: "parse_ranks (py_split (clean_response text)) = Inr parsed"
    and rs: "rs < - int (length ranking)"
  shows "receive_permutation ranking text rs re =
     (ranking, if py_slice ranking rs re = [] then None else Some IndexError)"
proof (cases "py_slice ranking rs re = []")
  case True
  then have "repaired parsed (length (py_slice ranking rs re)) = []"
    using length_repaired [of parsed 0] by simp
  then show ?thesis
    using parse True by (simp add: receive_permutation_repaired)
next
  case False
  let ?cr = "py_slice ranking rs re"
  have "length (repaired parsed (length ?cr)) \<noteq> 0"
    using False by (simp add: length_repaired)
  then obtain x xs where xs: "repaired parsed (length ?cr) = x # xs"
    by (cases "repaired parsed (length ?cr)") auto
  then have "x \<in> set (repaired parsed (length ?cr))" by simp
  then have "0 \<le> x \<and> x < int (length ?cr)" by (rule repaired_in_range)
  then have g: "py_getitem ?cr x = Inr (?cr ! nat x)"
    by (simp add: py_getitem_def norm_index_def)
  have s: "py_setitem ranking (0 + rs) v = Inl IndexError" for v
    using rs by (simp add: py_setitem_def norm_index_def)
  show ?thesis
    using parse False xs g s by (simp add: receive_permutation_repaired)
qed

lemma receive_permutation_frame_aux:
  "length (fst (receive_permutation ranking text rs re)) = length ranking \<and>
   (\<forall>i<length ranking.
      \<not> (slice_bound (length ranking) rs \<le> i \<and> i < slice_bound (length ranking) re) \<longrightarrow>
      fst (receive_permutation ranking text rs re) ! i = ranking ! i)"
proof (cases "parse_ranks (py_split (clean_response text))")
  case (Inl e)
  then show ?thesis by (simp add: receive_permutation_repaired)
next
  case (Inr parsed)
  show ?thesis
  proof (cases "- int (length ranking) \<le> rs")
    case False
    then have lt: "rs < - int (length ranking)" by simp
    show ?thesis by (simp add: receive_permutation_below [OF Inr lt])
  next
    case True
    define n where "n = length ranking"
    define s where "s = slice_bound n rs"
    define e where "e = slice_bound n re"
    define w where "w = map (\<lambda>x. py_slice ranking rs re ! nat x)
      (repaired parsed (length (py_slice ranking rs re)))"
    have res: "fst (receive_permutation ranking text rs re) = take s ranking @ w @ drop (s + (e - s)) ranking"
      using receive_permutation_ok [OF Inr True, of re]
      by (simp add: length_py_slice n_def s_def e_def w_def)
    have lw: "length w = e - s"
      by (simp add: length_repaired length_py_slice n_def s_def e_def w_def)
    have sn: "s \<le> n" and en: "e \<le> n"
      unfolding s_def e_def by (rule slice_bound_le)+
    have lt: "length (take s ranking) = s"
      using sn by (simp add: n_def)
    have len: "length (take s ranking @ w @ drop (s + (e - s)) ranking) = n"
      using sn en lw by (simp add: n_def)
    have nth: "(take s ranking @ w @ drop (s + (e - s)) ranking) ! i = ranking ! i"
      if "i < n" and "\<not> (s \<le> i \<and> i < e)" for i
    proof (cases "i < s")
      case True
      then show ?thesis using lt by (simp add: nth_append)
    next
      case False
      then have ge: "s + (e - s) \<le> i" using that by arith
      have "(take s ranking @ w @ drop (s + (e - s)) ranking) ! i = (w @ drop (s + (e - s)) ranking) ! (i - s)"
        using False lt by (simp add: nth_append)
      also have "\<dots> = drop (s + (e - s)) ranking ! (i - s - length w)"
      proof -
        have "\<not> i - s < length w" using ge lw by arith
        then show ?thesis by (simp only: nth_append if_False)
      qed
      also have "\<dots> = drop (s + (e - s)) ranking ! (i - s - (e - s))"
        using lw by simp
      also have "\<dots> = ranking ! (s + (e - s) + (i - s - (e - s)))"
        using that(1) ge by (simp add: n_def)
      also have "s + (e - s) + (i - s - (e - s)) = i"
        using ge by arith
      finally show ?thesis .
    qed
    show ?thesis using len nth res by (simp add: n_def s_def e_def)
  qed
qed

lemma receive_permutation_window_mset:
  assumes parse: "parse_ranks (py_split (clean_response text)) = Inr parsed"
    and rs: "- int (length ranking) \<le> rs"
  shows "mset (py_slice (fst (receive_permutation ranking text rs re)) rs re) = mset (py_slice ranking rs re)"
proof -
  let ?n = "length ranking"
  let ?s = "slice_bound ?n rs"
  let ?e = "slice_bound ?n re"
  let ?cr = "py_slice ranking rs re"
  let ?p = "repaired parsed (length ?cr)"
  let ?w = "map (\<lambda>x. ?cr ! nat x) ?p"
  have res: "fst (receive_permutation ranking text rs re) = take ?s ranking @ ?w @ drop (?s + length ?cr) ranking"
    using receive_permutation_ok [OF parse rs, of re] by simp
  have lw: "length ?w = ?e - ?s" by (simp add: length_repaired length_py_slice)
  have sn: "?s \<le> ?n" by (rule slice_bound_le)
  have len: "length (fst (receive_permutation ranking text rs re)) = ?n"
    using receive_permutation_frame_aux by blast
  have "py_slice (take ?s ranking @ ?w @ drop (?s + length ?cr) ranking) rs re = ?w"
    using len lw sn unfolding res py_slice_def by simp
  then have w: "py_slice (fst (receive_permutation ranking text rs re)) rs re = ?w"
    by (simp add: res)
  have "mset ?p = mset (map int [0..<length ?cr])"
    by (rule set_eq_iff_mset_eq_distinct [THEN iffD1])
       (simp_all add: distinct_repaired set_repaired distinct_map inj_on_def)
  then have "mset ?w = mset (map (\<lambda>x. ?cr ! nat x) (map int [0..<length ?cr]))"
    by (metis mset_map)
  also have "\<dots> = mset ?cr"
    by (simp add: o_def map_nth)
  finally show ?thesis using w by simp
qed

text \<open>Unfolding rules that evaluate the repair on a concrete text.\<close>

lemmas eval_defs =
  receive_permutation_def clean_response_def py_isdigit_def py_isdecimal_def in_ranges_def
  decimal_ranges_def other_digit_ranges_def py_strip_def py_isspace_def space_ranges_def
  py_split_def py_int_def max_str_digits_def py_decimal_def remove_duplicate_def py_slice_def slice_bound_def
  py_range_def py_getitem_def py_setitem_def norm_index_def cps_def

lemma repaired_Nil: "repaired [] m = py_range (int m)"
  by (simp add: repaired_def remove_duplicate_def)

lemma receive_permutation_no_digit:
  assumes nd: "no_digit text" and rs: "- int (length ranking) \<le> rs"
  shows "receive_permutation ranking text rs re = (ranking, None)"
proof -
  define s where "s = slice_bound (length ranking) rs"
  define m where "m = slice_bound (length ranking) re - s"
  have cr: "py_slice ranking rs re = take m (drop s ranking)"
    by (simp add: py_slice_def s_def m_def)
  have "map (\<lambda>x. py_slice ranking rs re ! nat x) (repaired [] (length (py_slice ranking rs re)))
        = py_slice ranking rs re"
    by (simp add: repaired_Nil py_range_def o_def map_nth)
  then have "receive_permutation ranking text rs re =
      (take s ranking @ take m (drop s ranking) @ drop (s + length (take m (drop s ranking))) ranking, None)"
    using receive_permutation_ok [OF parse_no_digit [OF nd] rs, of re]
    by (simp add: cr s_def)
  moreover have "take m (drop s ranking) @ drop (s + length (take m (drop s ranking))) ranking = drop s ranking"
  proof -
    have "drop (s + length (take m (drop s ranking))) ranking = drop (length (take m (drop s ranking))) (drop s ranking)"
      by (simp add: add.commute)
    also have "\<dots> = drop m (drop s ranking)"
      by (cases "m \<le> length (drop s ranking)") (simp_all add: min_def)
    finally show ?thesis by (simp del: drop_drop)
  qed
  ultimately show ?thesis by simp
qed

text \<open>
  For a readable text (such as a text of at most 4300 characters whose digit characters
  are all decimal digits) the call returns, keeps the length of the list and leaves a
  permutation of the window's documents in the window.
\<close>

lemma receive_permutation_total_readable:
  assumes dec: "readable text" and rs: "- int (length ranking) \<le> rs"
  shows "\<exists>ranking'. receive_permutation ranking text rs re = (ranking', None) \<and>
           length ranking' = length ranking \<and>
           mset (py_slice ranking' rs re) = mset (py_slice ranking rs re)"
proof -
  obtain parsed where parse: "parse_ranks (py_split (clean_response text)) = Inr parsed"
    using dec by (auto simp: readable_def split: sum.splits)
  obtain ranking' where r: "receive_permutation ranking text rs re = (ranking', None)"
    using receive_permutation_ok [OF parse rs] by blast
  have "length ranking' = length ranking"
    using receive_permutation_frame_aux [of ranking "text" rs re] r by simp
  moreover have "mset (py_slice ranking' rs re) = mset (py_slice ranking rs re)"
    using receive_permutation_window_mset [OF parse rs, of re] r by simp
  ultimately show ?thesis using r by blast
qed

text \<open>
  A run of more digits than \<^verbatim>\<open>int\<close> reads is one token, and the call raises on it.
\<close>

lemma py_isdigit_49: "py_isdigit 49" and py_isspace_49: "\<not> py_isspace 49"
  by (simp_all add: py_isdigit_def py_isdecimal_def py_isspace_def in_ranges_def
      decimal_ranges_def space_ranges_def)

lemma clean_response_ones: "clean_response (replicate n 49) = replicate n 49"
proof -
  have "clean_chars (replicate n 49) = replicate n 49"
    by (induction n) (simp_all add: py_isdigit_49)
  moreover have "dropWhile py_isspace (replicate n 49) = replicate n 49"
    by (cases n) (simp_all add: py_isspace_49)
  ultimately show ?thesis
    by (simp add: clean_response_def py_strip_def)
qed

lemma split_words_ones: "split_words w (replicate (Suc n) 49) = [w @ replicate (Suc n) 49]"
proof (induction n arbitrary: w)
  case 0
  show ?case by (simp add: py_isspace_49)
next
  case (Suc n)
  have "split_words w (replicate (Suc (Suc n)) 49) = split_words (w @ [49]) (replicate (Suc n) 49)"
    by (simp add: py_isspace_49)
  then show ?case using Suc [of "w @ [49]"] by simp
qed

lemma receive_permutation_long_numeral:
  "receive_permutation ranking (replicate (Suc max_str_digits) 49) rank_start rank_end =
     (ranking, Some ValueError)"
  by (simp only: receive_permutation_def clean_response_ones py_split_def split_words_ones)
     (simp add: py_int_def)

section \<open>Claims about permutation repair\<close>

text \<open>
  C1. Permutation repair is claimed to be total: for every text and every window,
  \<^verbatim>\<open>receive_permutation\<close> rewrites the window as a permutation of its documents and
  never fails. The code keeps the characters for which \<^verbatim>\<open>str.isdigit\<close> holds and
  hands them to \<^verbatim>\<open>int\<close>, which accepts decimal digits only: on the response
  \<^verbatim>\<open>[2] > [1] \<close> followed by a superscript two (U+00B2) the call raises
  \<^verbatim>\<open>ValueError\<close> and the ranking stays as it was.
\<close>

theorem receive_permutation_superscript_raises:
  "receive_permutation [d1, d2] (cps ''[2] > [1] '' @ [178]) 0 2 = ([d1, d2], Some ValueError)"
  by (simp add: eval_defs)

text \<open>
  C9. Frame property of permutation repair: whatever the list, the text and the bounds,
  and whether the call returns or raises, the list keeps its length and every position
  outside the slice \<^verbatim>\<open>ranking[rank_start:rank_end]\<close> holds the same document afterwards
  as before. For bounds that are not negative these are the positions \<open>i\<close> with
  \<open>i < rank_start\<close> or \<open>rank_end \<le> i\<close>.
\<close>

theorem receive_permutation_frame:
  "length (fst (receive_permutation ranking permutation rank_start rank_end)) = length ranking \<and>
   (\<forall>i<length ranking.
      \<not> (slice_bound (length ranking) rank_start \<le> i \<and> i < slice_bound (length ranking) rank_end) \<longrightarrow>
      fst (receive_permutation ranking permutation rank_start rank_end) ! i = ranking ! i) \<and>
   (0 \<le> rank_start \<and> 0 \<le> rank_end \<longrightarrow>
      (\<forall>i<length ranking. int i < rank_start \<or> rank_end \<le> int i \<longrightarrow>
         fst (receive_permutation ranking permutation rank_start rank_end) ! i = ranking ! i))"
proof -
  note aux = receive_permutation_frame_aux [of ranking permutation rank_start rank_end]
  have "fst (receive_permutation ranking permutation rank_start rank_end) ! i = ranking ! i"
    if "0 \<le> rank_start" "0 \<le> rank_end" "i < length ranking" "int i < rank_start \<or> rank_end \<le> int i" for i
  proof -
    have "\<not> (slice_bound (length ranking) rank_start \<le> i \<and> i < slice_bound (length ranking) rank_end)"
      using that by (auto simp: slice_bound_def)
    then show ?thesis using aux that(3) by blast
  qed
  then show ?thesis using aux by blast
qed

theorem receive_permutation_frame_witness:
  "fst (receive_permutation [10, 20, 30, 40, 50 :: nat] (cps ''[2] > [1]'') 1 3) = [10, 30, 20, 40, 50] \<and>
   fst (receive_permutation [10, 20, 30, 40, 50 :: nat] (cps ''[2] > [1]'') 1 3) ! 0 = 10 \<and>
   fst (receive_permutation [10, 20, 30, 40, 50 :: nat] (cps ''[2] > [1]'') 1 3) ! 3 = 40 \<and>
   fst (receive_permutation [10, 20, 30, 40, 50 :: nat] (cps ''[2] > [1]'') 1 3) ! 4 = 50"
  using receive_permutation_frame [of "[10, 20, 30, 40, 50 :: nat]" "cps ''[2] > [1]''" 1 3]
  by (simp add: eval_defs)

text \<open>Attempts that fail for another reason are retried.\<close>

lemma compare_retry_skip:
  assumes "\<forall>i<n. \<exists>m. api (k + i) = ApiException m \<and>
             \<not> py_contains (cps ''This model's maximum context length is'') m"
  shows "compare_retry api k = compare_retry api (k + n)"
  using assms
proof (induction n arbitrary: k)
  case 0
  then show ?case by simp
next
  case (Suc n)
  obtain m where m: "api k = ApiException m"
    "\<not> py_contains (cps ''This model's maximum context length is'') m"
    using Suc.prems [rule_format, of 0] by auto
  have "\<forall>i<n. \<exists>m. api (Suc k + i) = ApiException m \<and>
          \<not> py_contains (cps ''This model's maximum context length is'') m"
    using Suc.prems by (auto dest: spec [of _ "Suc i" for i])
  then have "compare_retry api (Suc k) = compare_retry api (Suc k + n)"
    by (rule Suc.IH)
  moreover have "compare_retry api k = compare_retry api (Suc k)"
    using m by (subst compare_retry.simps) simp
  ultimately show ?case by simp
qed

text \<open>
  C8. A context-length failure of the chat completion call, at the first attempt or
  after attempts that failed for other reasons, makes the retry loop return the
  sentinel \<^verbatim>\<open>ERROR::reduce_length\<close>; permutation repair on the sentinel, and on any
  text without a digit character, returns without raising and leaves the ranking as it
  was, for every window whose start is not negative.
\<close>

theorem context_too_long_identity:
  "(api n = ApiException msg \<and> py_contains (cps ''This model's maximum context length is'') msg \<and>
    (\<forall>i<n. \<exists>m. api i = ApiException m \<and>
        \<not> py_contains (cps ''This model's maximum context length is'') m) \<longrightarrow>
      compare_retry api 0 = Some (cps ''ERROR::reduce_length'')) \<and>
   (0 \<le> rank_start \<longrightarrow>
      receive_permutation ranking (cps ''ERROR::reduce_length'') rank_start rank_end = (ranking, None)) \<and>
   (0 \<le> rank_start \<and> no_digit text \<longrightarrow>
      receive_permutation ranking text rank_start rank_end = (ranking, None))"
proof (intro conjI impI)
  assume a: "api n = ApiException msg \<and> py_contains (cps ''This model's maximum context length is'') msg \<and>
    (\<forall>i<n. \<exists>m. api i = ApiException m \<and>
        \<not> py_contains (cps ''This model's maximum context length is'') m)"
  then have "compare_retry api 0 = compare_retry api (0 + n)"
    by (intro compare_retry_skip) simp
  also have "\<dots> = Some (cps ''ERROR::reduce_length'')"
    using a by (subst compare_retry.simps) simp
  finally show "compare_retry api 0 = Some (cps ''ERROR::reduce_length'')" .
next
  assume rs: "0 \<le> rank_start"
  have "no_digit (cps ''ERROR::reduce_length'')"
    by (simp add: no_digit_def eval_defs)
  then show "receive_permutation ranking (cps ''ERROR::reduce_length'') rank_start rank_end = (ranking, None)"
    using rs by (intro receive_permutation_no_digit) simp_all
next
  assume "0 \<le> rank_start \<and> no_digit text"
  then show "receive_permutation ranking text rank_start rank_end = (ranking, None)"
    by (intro receive_permutation_no_digit) simp_all
qed

theorem context_too_long_identity_witness:
  "compare_retry
     (\<lambda>n. if n < 2 then ApiException (cps ''Request timed out'')
          else ApiException (cps ''This model's maximum context length is 4097 tokens.'')) 0
     = Some (cps ''ERROR::reduce_length'') \<and>
   receive_permutation [10, 20, 30 :: nat] (cps ''ERROR::reduce_length'') 0 3 = ([10, 20, 30], None) \<and>
   receive_permutation [10, 20, 30 :: nat] (cps ''I cannot rank these.'') 0 3 = ([10, 20, 30], None)"
proof -
  let ?api = "\<lambda>n :: nat. if n < 2 then ApiException (cps ''Request timed out'')
          else ApiException (cps ''This model's maximum context length is 4097 tokens.'')"
  have h1: "?api 2 = ApiException (cps ''This model's maximum context length is 4097 tokens.'')"
    by simp
  have h2: "py_contains (cps ''This model's maximum context length is'')
              (cps ''This model's maximum context length is 4097 tokens.'')"
    by (simp add: cps_def)
  have h3: "\<forall>i<2. \<exists>m. ?api i = ApiException m \<and>
        \<not> py_contains (cps ''This model's maximum context length is'') m"
    by (simp add: cps_def)
  have h4: "no_digit (cps ''I cannot rank these.'')"
    by (simp add: no_digit_def eval_defs)
  show ?thesis
    using context_too_long_identity [of ?api 2
        "cps ''This model's maximum context length is 4097 tokens.''" 0 "[10, 20, 30 :: nat]" 3
        "cps ''I cannot rank these.''"] h1 h2 h3 h4
    by simp
qed

section \<open>Claims about the listwise reranker\<close>

text \<open>
  C7. End-to-end scenario: with four candidates and a comparison that always answers
  \<^verbatim>\<open>[4] > [3] > [2] > [1]\<close>, a listwise rerank with window size 4, stride 4 and one
  repeat returns the documents in the order d4, d3, d2, d1 (with the scores 0, -1, -2,
  -3 that \<^verbatim>\<open>rerank\<close> assigns).
\<close>

theorem listwise_end_to_end:
  "listwise_rerank (\<lambda>n q ds. cps ''[4] > [3] > [2] > [1]'') 4 4 1 query [d1, d2, d3, d4] =
     Some (Inr [d4\<lparr>score := 0\<rparr>, d3\<lparr>score := - 1\<rparr>, d2\<lparr>score := - 2\<rparr>, d1\<lparr>score := - 3\<rparr>])"
proof -
  have rp: "receive_permutation [d1, d2, d3, d4] (cps ''[4] > [3] > [2] > [1]'') 0 4 = ([d4, d3, d2, d1], None)"
    by (simp add: eval_defs)
  have "one_pass (\<lambda>n q ds. cps ''[4] > [3] > [2] > [1]'') query 4 4
          \<lparr>ranking_of = [d1, d2, d3, d4], total_compare = 0, visited = []\<rparr>
        = Some (Inr \<lparr>ranking_of = [d4, d3, d2, d1], total_compare = 1, visited = [0]\<rparr>)"
    unfolding one_pass_def
    apply (subst window_loop.simps)
    apply (simp add: rp)
    apply (subst window_loop.simps)
    apply simp
    done
  then show ?thesis
    by (simp add: listwise_rerank_def assign_scores_def enumerate_eq_zip upt_rec [of 0] upt_rec [of 1] upt_rec [of 2] upt_rec [of 3])
qed

text \<open>The loop over the windows, from a start position that is not negative.\<close>

lemma int_div_shift: "0 < S \<Longrightarrow> (p - S) div S = p div S - (1::int)"
  using div_add_self2 [of S "p - S"] by simp

lemma int_div_mult_le: "0 < S \<Longrightarrow> x div S * S \<le> (x::int)"
  using div_mult_mod_eq [of x S] pos_mod_sign [of S x] by linarith

lemma window_starts_rec:
  assumes "0 < S" "0 \<le> p"
  shows "map (\<lambda>i. p - int i * S) [0..<nat (p div S) + 1] =
         p # (if 0 \<le> p - S then map (\<lambda>i. p - S - int i * S) [0..<nat ((p - S) div S) + 1] else [])"
proof (cases "0 \<le> p - S")
  case True
  have d: "(p - S) div S = p div S - 1"
    using assms by (simp add: int_div_shift)
  have "0 \<le> (p - S) div S"
    using True assms by (simp add: pos_imp_zdiv_nonneg_iff)
  then have n: "nat (p div S) + 1 = Suc (nat ((p - S) div S) + 1)"
    using d by simp
  have "map (\<lambda>i. p - int i * S) [0..<Suc (nat ((p - S) div S) + 1)] =
        p # map (\<lambda>i. p - int (Suc i) * S) [0..<nat ((p - S) div S) + 1]"
    by (simp only: upt_conv_Cons [of 0] map_Suc_upt [symmetric] list.map) (simp add: o_def)
  then show ?thesis
    using True n by (simp add: algebra_simps)
next
  case False
  then have "p div S = 0"
    using assms by (simp add: div_pos_pos_trivial)
  then show ?thesis using False by simp
qed

lemma window_loop_visits:
  assumes S: "0 < S" and ok: "\<forall>i q ds. readable (compare i q ds)"
  shows "0 \<le> p \<Longrightarrow>
    \<exists>st'. window_loop compare query W S p st = Some (Inr st') \<and>
          visited st' = visited st @ map (\<lambda>i. p - int i * S) [0..<nat (p div S) + 1] \<and>
          length (ranking_of st') = length (ranking_of st) \<and>
          total_compare st' = total_compare st + nat (p div S) + 1"
proof (induction "nat p" arbitrary: p st rule: less_induct)
  case less
  let ?perm = "compare (total_compare st) query (py_slice (ranking_of st) p (p + W))"
  have "readable ?perm" using ok by blast
  moreover have "- int (length (ranking_of st)) \<le> p" using less.prems by simp
  ultimately obtain r where r: "receive_permutation (ranking_of st) ?perm p (p + W) = (r, None)"
    and lr: "length r = length (ranking_of st)"
    using receive_permutation_total_readable [of ?perm "ranking_of st" p "p + W"] by blast
  define st1 where "st1 = \<lparr>ranking_of = r, total_compare = total_compare st + 1, visited = visited st @ [p]\<rparr>"
  have step: "window_loop compare query W S p st = window_loop compare query W S (p - S) st1"
    using less.prems r by (subst window_loop.simps) (simp add: st1_def)
  show ?case
  proof (cases "0 \<le> p - S")
    case True
    then have "nat (p - S) < nat p" using S less.prems by simp
    from less.hyps [OF this True, of st1]
    obtain st' where st': "window_loop compare query W S (p - S) st1 = Some (Inr st')"
      "visited st' = visited st1 @ map (\<lambda>i. p - S - int i * S) [0..<nat ((p - S) div S) + 1]"
      "length (ranking_of st') = length (ranking_of st1)"
      "total_compare st' = total_compare st1 + nat ((p - S) div S) + 1"
      by blast
    have d: "(p - S) div S = p div S - 1"
      using S by (simp add: int_div_shift)
    have nn: "0 \<le> (p - S) div S"
      using True S by (simp add: pos_imp_zdiv_nonneg_iff)
    have "visited st' = visited st @ map (\<lambda>i. p - int i * S) [0..<nat (p div S) + 1]"
      using st'(2) window_starts_rec [OF S less.prems] True by (simp add: st1_def)
    moreover have "total_compare st' = total_compare st + nat (p div S) + 1"
      using st'(4) d nn by (simp add: st1_def)
    ultimately show ?thesis
      using step st'(1,3) lr by (simp add: st1_def)
  next
    case False
    then have z: "p div S = 0"
      using S less.prems by (simp add: div_pos_pos_trivial)
    have "window_loop compare query W S (p - S) st1 = Some (Inr st1)"
      using False by (subst window_loop.simps) simp
    then show ?thesis
      using step z lr by (simp add: st1_def)
  qed
qed

lemma window_starts_example: "window_starts 10 4 2 = [6, 4, 2, 0]"
  by code_simp

text \<open>
  Window coverage when every answer is readable: for a stride \<open>S > 0\<close>, a window size
  \<open>W\<close> and a ranking of \<open>n \<ge> W\<close> documents, one pass of the listwise rerank ends and
  visits exactly \<open>(n - W) div S + 1\<close> windows, at the start positions \<open>n - W\<close>,
  \<open>n - W - S\<close>, ...; every visited start is at least 0 and the last one is below \<open>S\<close>,
  so the next one would be negative and is not visited.
\<close>

theorem window_coverage:
  assumes "0 < step_size"
    and "window_size \<le> int (length (ranking_of st))"
    and "\<forall>i q ds. readable (compare i q ds)"
  shows "(\<exists>st'. one_pass compare query window_size step_size st = Some (Inr st') \<and>
           visited st' = visited st @ window_starts (int (length (ranking_of st))) window_size step_size \<and>
           total_compare st' = total_compare st +
             length (window_starts (int (length (ranking_of st))) window_size step_size)) \<and>
         length (window_starts (int (length (ranking_of st))) window_size step_size) =
           nat ((int (length (ranking_of st)) - window_size) div step_size) + 1 \<and>
         list_all (\<lambda>p. 0 \<le> p) (window_starts (int (length (ranking_of st))) window_size step_size) \<and>
         last (window_starts (int (length (ranking_of st))) window_size step_size) < step_size"
proof -
  let ?n = "int (length (ranking_of st))"
  have p: "0 \<le> ?n - window_size" using assms(2) by simp
  have a: "\<exists>st'. one_pass compare query window_size step_size st = Some (Inr st') \<and>
           visited st' = visited st @ window_starts ?n window_size step_size \<and>
           total_compare st' = total_compare st + length (window_starts ?n window_size step_size)"
    using window_loop_visits [OF assms(1,3) p, of query window_size st]
    by (auto simp: one_pass_def window_starts_def)
  have b: "length (window_starts ?n window_size step_size) = nat ((?n - window_size) div step_size) + 1"
    by (simp add: window_starts_def)
  have nn: "0 \<le> (?n - window_size) div step_size"
    using p assms(1) by (simp add: pos_imp_zdiv_nonneg_iff)
  have le: "int i * step_size \<le> ?n - window_size" if "i \<le> nat ((?n - window_size) div step_size)" for i
  proof -
    have "int i \<le> (?n - window_size) div step_size" using that nn by simp
    then have "int i * step_size \<le> ((?n - window_size) div step_size) * step_size"
      using assms(1) by (simp add: mult_right_mono)
    also have "\<dots> \<le> ?n - window_size"
      using assms(1) by (rule int_div_mult_le)
    finally show ?thesis .
  qed
  have c: "list_all (\<lambda>p. 0 \<le> p) (window_starts ?n window_size step_size)"
    unfolding window_starts_def list_all_iff
  proof
    fix x assume "x \<in> set (map (\<lambda>i. ?n - window_size - int i * step_size)
        [0..<nat ((?n - window_size) div step_size) + 1])"
    then obtain i where "i \<in> {0..<nat ((?n - window_size) div step_size) + 1}"
      and x: "x = ?n - window_size - int i * step_size"
      unfolding set_map set_upt by blast
    then have "i \<le> nat ((?n - window_size) div step_size)"
      by simp
    then show "0 \<le> x" using le [of i] x by simp
  qed
  have "last (window_starts ?n window_size step_size) =
          ?n - window_size - ((?n - window_size) div step_size) * step_size"
    using nn by (simp add: window_starts_def last_map)
  also have "\<dots> = (?n - window_size) mod step_size"
    using div_mult_mod_eq [of "?n - window_size" step_size] by linarith
  also have "\<dots> < step_size"
    using assms(1) by simp
  finally have d: "last (window_starts ?n window_size step_size) < step_size" .
  show ?thesis using a b c d by blast
qed

theorem window_coverage_witness:
  "(\<exists>st'. one_pass (\<lambda>n q ds. cps ''[2] > [1]'') [] 4 2
            \<lparr>ranking_of = replicate 10 \<lparr>docid = 0 :: nat, score = 0, doc_text = None\<rparr>,
             total_compare = 0, visited = []\<rparr> = Some (Inr st') \<and>
          visited st' = [6, 4, 2, 0] \<and> total_compare st' = 4) \<and>
   length (window_starts 10 4 2) = 4 \<and> last (window_starts 10 4 2) < 2"
proof -
  let ?st = "\<lparr>ranking_of = replicate 10 \<lparr>docid = 0 :: nat, score = 0, doc_text = None\<rparr>,
        total_compare = 0, visited = []\<rparr>"
  have h1: "(0::int) < 2" by simp
  have h2: "4 \<le> int (length (ranking_of ?st))" by simp
  have h3: "\<forall>i q ds. readable ((\<lambda>n q ds. cps ''[2] > [1]'') i (q :: pystr) (ds :: nat search_result list))"
    by (simp add: readable_def eval_defs)
  have four: "length [6, 4, 2, 0 :: int] = 4" by simp
  show ?thesis
    using window_coverage [OF h1 h2 h3, of "[]"]
    by (simp only: listwise_state.simps length_replicate of_nat_numeral window_starts_example
        four append_Nil add_0) simp
qed

text \<open>An answer that is a superscript two makes permutation repair raise, at any window.\<close>

lemma receive_permutation_superscript:
  "receive_permutation ranking [178] rank_start rank_end = (ranking, Some ValueError)"
  by (simp add: receive_permutation_def clean_response_def py_isdigit_def py_isdecimal_def
      in_ranges_def decimal_ranges_def other_digit_ranges_def py_strip_def py_isspace_def
      space_ranges_def py_split_def py_int_def max_str_digits_def py_decimal_def)

text \<open>
  C5. Window coverage is claimed for every ranking of \<open>n \<ge> W\<close> documents, window size
  \<open>W\<close> and stride \<open>S\<close>: each pass visits \<open>(n - W) div S + 1\<close> windows, at the starts
  \<open>n - W\<close>, \<open>n - W - S\<close>, ... down to the smallest that is not negative. The answers of the
  comparison are free text, and the pass stops at the first answer that permutation
  repair cannot read: for ten documents, window size 4 and stride 2 the claim gives the
  four starts 6, 4, 2, 0, but with the answer made of a superscript two (U+00B2) the
  pass raises \<^verbatim>\<open>ValueError\<close> at the first window and the other three are not visited.
\<close>

theorem pass_aborts_on_unreadable_answer:
  "one_pass (\<lambda>n q ds. [178]) query 4 2
     \<lparr>ranking_of = replicate 10 d, total_compare = 0, visited = []\<rparr> = Some (Inl ValueError) \<and>
   window_starts 10 4 2 = [6, 4, 2, 0]"
proof -
  have "one_pass (\<lambda>n q ds. [178]) query 4 2
     \<lparr>ranking_of = replicate 10 d, total_compare = 0, visited = []\<rparr> = Some (Inl ValueError)"
    unfolding one_pass_def
    by (subst window_loop.simps) (simp add: receive_permutation_superscript)
  then show ?thesis
    by (simp add: window_starts_example)
qed

section \<open>Claims about the prompt budget fitter\<close>

text \<open>
  The loop never returns when the request is over the budget at every truncation length.
\<close>

lemma fit_loop_never:
  assumes "\<And>max_length. \<exists>messages. build_messages query docs max_length = Inr messages \<and>
             \<not> num_tokens_from_messages enc messages model \<le> max_tokens model - 200"
  shows "fit_loop enc query docs (Some model) max_length = None"
proof (rule ccontr)
  assume "fit_loop enc query docs (Some model) max_length \<noteq> None"
  then obtain y where y: "fit_loop enc query docs (Some model) max_length = Some y"
    by auto
  have "enc = enc \<and> query = query \<and> docs = docs \<and> Some model = Some model \<longrightarrow> False"
  proof (rule fit_loop.raw_induct [where P = "\<lambda>a b c d e r. a = enc \<and> b = query \<and> c = docs \<and> d = Some model \<longrightarrow> False",
        OF _ y], goal_cases)
    case (1 f enc' query' docs' mn ml y')
    show ?case
    proof (intro impI)
      assume eq: "enc' = enc \<and> query' = query \<and> docs' = docs \<and> mn = Some model"
      obtain messages where m: "build_messages query docs ml = Inr messages"
        and big: "\<not> num_tokens_from_messages enc messages model \<le> max_tokens model - 200"
        using assms [of ml] by blast
      have "f enc query docs (Some model) (ml - 1) = Some y'"
        using 1(2) eq m big by simp
      then show False using 1(1) by blast
    qed
  qed
  then show False by simp
qed

text \<open>
  Every message costs at least \<^verbatim>\<open>tokens_per_message\<close> tokens whatever the tokenizer,
  so the estimate is at least four tokens per message plus three for the model
  \<^verbatim>\<open>gpt-3.5-turbo\<close>, and a request for 485 documents has 974 messages.
\<close>

lemma count_message_lower:
  assumes "no_name message"
  shows "n + tpm \<le> foldl (\<lambda>num_tokens item. num_tokens + int (enc model (snd item)) +
             (if fst item = cps ''name'' then tpn else 0)) (n + tpm) message"
  using assms
proof (induction message arbitrary: n rule: rev_induct)
  case Nil
  then show ?case by simp
next
  case (snoc item message)
  then have "no_name message" and "fst item \<noteq> cps ''name''"
    by (simp_all add: no_name_def)
  then show ?case using snoc.IH [of n] by simp
qed

lemma count_tokens_lower:
  assumes "list_all no_name messages" and "0 \<le> tpm"
  shows "tpm * int (length messages) + 3 \<le> count_tokens enc model tpm tpn messages"
proof -
  let ?inner = "\<lambda>n message. foldl (\<lambda>num_tokens item. num_tokens + int (enc model (snd item)) +
             (if fst item = cps ''name'' then tpn else 0)) (n + tpm) message"
  have "tpm * int (length messages) \<le> foldl ?inner 0 messages"
    using assms(1)
  proof (induction messages rule: rev_induct)
    case Nil
    then show ?case by simp
  next
    case (snoc message messages)
    then have a: "list_all no_name messages" and b: "no_name message" by simp_all
    have ih: "tpm * int (length messages) \<le> foldl ?inner 0 messages"
      using snoc.IH [OF a] .
    have step: "foldl ?inner 0 messages + tpm \<le> ?inner (foldl ?inner 0 messages) message"
      by (rule count_message_lower [OF b])
    have "foldl ?inner 0 (messages @ [message]) = ?inner (foldl ?inner 0 messages) message"
      by simp
    moreover have "tpm * int (length (messages @ [message])) = tpm * int (length messages) + tpm"
      by (simp add: algebra_simps)
    ultimately show ?case using ih step by linarith
  qed
  then show ?thesis by (simp add: count_tokens_def)
qed

lemma no_name_chat_message: "no_name (chat_message role content)"
  by (simp add: no_name_def chat_message_def cps_def)

lemma doc_messages_with_text:
  assumes "list_all (\<lambda>d. doc_text d \<noteq> None) docs"
  shows "\<exists>ms. doc_messages max_length rank docs = Inr ms \<and> length ms = 2 * length docs \<and>
           list_all no_name ms"
  using assms
proof (induction docs arbitrary: rank)
  case Nil
  then show ?case by simp
next
  case (Cons d docs)
  then obtain content where c: "doc_text d = Some content" by auto
  obtain ms where "doc_messages max_length (rank + 1) docs = Inr ms" "length ms = 2 * length docs"
    "list_all no_name ms"
    using Cons by auto
  then show ?case
    using c by (simp add: Let_def no_name_chat_message)
qed

lemma build_messages_with_text:
  assumes "list_all (\<lambda>d. doc_text d \<noteq> None) docs"
  shows "\<exists>ms. build_messages query docs max_length = Inr ms \<and> length ms = 2 * length docs + 4 \<and>
           list_all no_name ms"
proof -
  obtain ms where "doc_messages max_length 0 docs = Inr ms" "length ms = 2 * length docs"
    "list_all no_name ms"
    using doc_messages_with_text [OF assms] by blast
  then show ?thesis
    by (simp add: build_messages_def get_prefix_prompt_def no_name_chat_message)
qed

lemma gpt35_tokens:
  "num_tokens_from_messages enc messages (cps ''gpt-3.5-turbo'') =
     count_tokens enc (cps ''gpt-3.5-turbo-0301'') 4 (- 1) messages"
  by (simp add: num_tokens_from_messages_def num_tokens_direct_def cps_def)

lemma gpt35_max_tokens: "max_tokens (cps ''gpt-3.5-turbo'') = 4096"
  by (simp add: max_tokens_def cps_def)

lemma fit_loop_many_docs:
  assumes "list_all (\<lambda>d. doc_text d \<noteq> None) docs" and "485 \<le> length docs"
  shows "fit_loop enc query docs (Some (cps ''gpt-3.5-turbo'')) max_length = None"
proof (rule fit_loop_never)
  fix ml
  obtain ms where ms: "build_messages query docs ml = Inr ms" "length ms = 2 * length docs + 4"
    "list_all no_name ms"
    using build_messages_with_text [OF assms(1)] by blast
  have "4 * int (length ms) + 3 \<le> count_tokens enc (cps ''gpt-3.5-turbo-0301'') 4 (- 1) ms"
    using count_tokens_lower [OF ms(3), of 4] by simp
  then have "\<not> num_tokens_from_messages enc ms (cps ''gpt-3.5-turbo'') \<le> max_tokens (cps ''gpt-3.5-turbo'') - 200"
    using ms(2) assms(2) by (simp add: gpt35_tokens gpt35_max_tokens)
  then show "\<exists>messages. build_messages query docs ml = Inr messages \<and>
       \<not> num_tokens_from_messages enc messages (cps ''gpt-3.5-turbo'') \<le> max_tokens (cps ''gpt-3.5-turbo'') - 200"
    using ms(1) by blast
qed

text \<open>
  The closing instruction holds the query, so a query that alone costs more than the
  budget keeps the loop running forever, whatever the documents are.
\<close>

lemma count_tokens_last:
  assumes "list_all no_name messages" and "0 \<le> tpm"
  shows "int (enc model content) + 3 \<le>
         count_tokens enc model tpm tpn (messages @ [chat_message role content])"
proof -
  let ?inner = "\<lambda>n message. foldl (\<lambda>num_tokens item. num_tokens + int (enc model (snd item)) +
             (if fst item = cps ''name'' then tpn else 0)) (n + tpm) message"
  have "0 \<le> tpm * int (length messages)"
    using assms(2) by simp
  also have "tpm * int (length messages) + 3 \<le> foldl ?inner 0 messages + 3"
    using count_tokens_lower [OF assms, of enc model tpn] by (simp add: count_tokens_def)
  finally have "0 \<le> foldl ?inner 0 messages" by simp
  moreover have "?inner n (chat_message role content) =
      n + tpm + int (enc model (cps role)) + int (enc model content)" for n
    by (simp add: chat_message_def cps_def)
  ultimately show ?thesis
    using assms(2) by (simp add: count_tokens_def)
qed

lemma fit_loop_long_query:
  assumes "list_all (\<lambda>d. doc_text d \<noteq> None) docs"
    and "3893 < enc (cps ''gpt-3.5-turbo-0301'') (get_post_prompt query (length docs))"
  shows "fit_loop enc query docs (Some (cps ''gpt-3.5-turbo'')) max_length = None"
proof (rule fit_loop_never)
  fix ml
  obtain ms where ms: "doc_messages ml 0 docs = Inr ms" "list_all no_name ms"
    using doc_messages_with_text [OF assms(1)] by blast
  define pre where "pre = get_prefix_prompt query (length docs) @ ms"
  have b: "build_messages query docs ml =
      Inr (pre @ [chat_message ''user'' (get_post_prompt query (length docs))])"
    using ms(1) by (simp add: build_messages_def pre_def)
  have "list_all no_name pre"
    using ms(2) by (simp add: pre_def get_prefix_prompt_def no_name_chat_message)
  then have "int (enc (cps ''gpt-3.5-turbo-0301'') (get_post_prompt query (length docs))) + 3 \<le>
      count_tokens enc (cps ''gpt-3.5-turbo-0301'') 4 (- 1)
        (pre @ [chat_message ''user'' (get_post_prompt query (length docs))])"
    by (intro count_tokens_last) simp_all
  then have "\<not> num_tokens_from_messages enc
        (pre @ [chat_message ''user'' (get_post_prompt query (length docs))]) (cps ''gpt-3.5-turbo'')
      \<le> max_tokens (cps ''gpt-3.5-turbo'') - 200"
    using assms(2) by (simp add: gpt35_tokens gpt35_max_tokens)
  then show "\<exists>messages. build_messages query docs ml = Inr messages \<and>
       \<not> num_tokens_from_messages enc messages (cps ''gpt-3.5-turbo'') \<le> max_tokens (cps ''gpt-3.5-turbo'') - 200"
    using b by blast
qed

text \<open>
  C2. The shrink-to-fit loop is claimed to terminate for every query, document list,
  model name and token estimate. The loop has no floor: when the request does not fit
  at any truncation length it decrements \<^verbatim>\<open>max_length\<close> forever. For the model
  \<^verbatim>\<open>gpt-3.5-turbo\<close> and 485 documents (here with empty texts) the framing alone costs
  3899 tokens, above the budget of 3896, for every tokenizer and every query: the call
  never returns.
\<close>

theorem budget_loop_never_returns:
  "create_permutation_instruction_chat enc query
     (replicate 485 \<lparr>docid = d, score = 0, doc_text = Some []\<rparr>) (Some (cps ''gpt-3.5-turbo'')) = None"
  unfolding create_permutation_instruction_chat_def
  by (rule fit_loop_many_docs) (simp_all add: list_all_iff)

section \<open>Claims about the pairwise strategies\<close>

text \<open>
  On an array that is not empty \<^verbatim>\<open>heapSort\<close> raises before anything is pushed: the
  key of the first entry negates a label.
\<close>

lemma heap_push_all_raises:
  "docs \<noteq> [] \<Longrightarrow> \<exists>e. heap_push_all llm heappush arr docs heap calls = Inl e"
  by (cases docs) (auto simp: pairwise_compare_def split: sum.splits prod.splits)

lemma heapSort_never_returns:
  "arr \<noteq> [] \<Longrightarrow> \<exists>e. heapSort llm heappush heappop arr k calls = Inl e"
  using heap_push_all_raises [of arr llm heappush arr "[]" calls]
  by (auto simp: heapSort_def)

lemma heapSort_TypeError:
  assumes "arr \<noteq> []" and "llm calls [prompt_format [] (snd (hd arr)) (snd (hd arr)), prompt_format [] (snd (hd arr)) (snd (hd arr))] \<noteq> []"
  shows "heapSort llm heappush heappop arr k calls = Inl TypeError"
proof -
  obtain a rest where arr: "arr = a # rest" using assms(1) by (cases arr) auto
  obtain l ls where out: "llm calls [prompt_format [] (snd a) (snd a), prompt_format [] (snd a) (snd a)] = l # ls"
    using assms(2) arr by (cases "llm calls [prompt_format [] (snd a) (snd a), prompt_format [] (snd a) (snd a)]") auto
  show ?thesis
    by (simp add: heapSort_def arr pairwise_compare_def py_getitem_def norm_index_def out)
qed

text \<open>
  C3. The heap strategy is claimed to key the heap by comparisons between arbitrary
  pairs of candidates and to return the top-k. In the code every candidate is compared
  with the fixed anchor \<^verbatim>\<open>arr[0]\<close>, and the key expression applies unary minus to the
  label returned by the comparison, a \<^verbatim>\<open>str\<close>: with the heapsort method \<^verbatim>\<open>rerank\<close>
  raises \<^verbatim>\<open>TypeError\<close> on two candidates, whatever \<open>k\<close> and the heap operations are.
\<close>

theorem heapsort_raises_TypeError:
  "pairwise_rerank (\<lambda>n input_texts. [cps ''Passage A'', cps ''Passage B'']) generate heappush heappop
     (cps ''heapsort'') k query [d1, d2] = Inl TypeError"
  by (simp add: pairwise_rerank_def cps_def heapSort_def pairwise_compare_def py_getitem_def norm_index_def)

text \<open>The result merger: the returned list is determined by the list of its document ids.\<close>

lemma ranked_from_Nil: "ranked_from rank [] = []"
  by (simp add: ranked_from_def)

lemma ranked_from_Cons:
  "ranked_from rank (x # xs) = \<lparr>docid = x, score = - of_int rank, doc_text = None\<rparr> # ranked_from (rank + 1) xs"
  by (simp add: ranked_from_def enumerate_Suc_eq o_def split_def add.assoc del: enumerate_simps
           add: enumerate_simps(2) [of 0])

lemma ranked_from_append:
  "ranked_from rank (xs @ ys) = ranked_from rank xs @ ranked_from (rank + int (length xs)) ys"
  by (induction xs arbitrary: rank) (simp_all add: ranked_from_Nil ranked_from_Cons add.assoc)

lemma ranked_from_snoc:
  "ranked_from rank xs @ [\<lparr>docid = x, score = - of_int (rank + int (length xs)), doc_text = None\<rparr>] =
     ranked_from rank (xs @ [x])"
  by (simp add: ranked_from_append ranked_from_Cons ranked_from_Nil)

lemma length_ranked_from: "length (ranked_from rank ids) = length ids"
  by (simp add: ranked_from_def)

lemma docid_ranked_from: "map docid (ranked_from rank ids) = ids"
  by (induction ids arbitrary: rank) (simp_all add: ranked_from_Nil ranked_from_Cons)

lemma nth_ranked_from:
  "i < length ids \<Longrightarrow>
     ranked_from rank ids ! i = \<lparr>docid = ids ! i, score = - of_int (rank + int i), doc_text = None\<rparr>"
  by (simp add: ranked_from_def nth_enumerate_eq)

lemma merge_top_ranked:
  "merge_top docs (ranked_from r ids, seen, r + int (length ids)) =
     (ranked_from r (ids @ map docid docs), seen \<union> set (map docid docs),
      r + int (length ids) + int (length docs))"
proof (induction docs arbitrary: ids seen)
  case Nil
  then show ?case by simp
next
  case (Cons d docs)
  have "merge_top (d # docs) (ranked_from r ids, seen, r + int (length ids)) =
        merge_top docs (ranked_from r (ids @ [docid d]), insert (docid d) seen, r + int (length (ids @ [docid d])))"
    by (simp only: merge_top.simps ranked_from_snoc) (simp add: ac_simps)
  also have "\<dots> = (ranked_from r ((ids @ [docid d]) @ map docid docs),
                    insert (docid d) seen \<union> set (map docid docs),
                    r + int (length (ids @ [docid d])) + int (length docs))"
    by (rule Cons.IH)
  finally show ?case by simp
qed

lemma merge_rest_ranked:
  "fst (merge_rest docs (ranked_from r ids, seen, r + int (length ids))) =
     ranked_from r (ids @ filter (\<lambda>x. x \<notin> seen) (map docid docs))"
proof (induction docs arbitrary: ids)
  case Nil
  then show ?case by simp
next
  case (Cons d docs)
  show ?case
  proof (cases "docid d \<in> seen")
    case True
    then show ?thesis using Cons.IH [of ids] by simp
  next
    case False
    have "merge_rest (d # docs) (ranked_from r ids, seen, r + int (length ids)) =
          merge_rest docs (ranked_from r (ids @ [docid d]), seen, r + int (length (ids @ [docid d])))"
      using False by (simp only: merge_rest.simps ranked_from_snoc if_True) (simp add: ac_simps)
    then show ?thesis using False Cons.IH [of "ids @ [docid d]"] by simp
  qed
qed

lemma merge_results_ranked:
  "merge_results ranking original_ranking k =
     ranked_from 1 (merged_ids (map docid (py_slice_to ranking k)) (map docid original_ranking))"
proof -
  have "merge_top (py_slice_to ranking k) ([], {}, 1) =
        (ranked_from 1 (map docid (py_slice_to ranking k)), set (map docid (py_slice_to ranking k)),
         1 + int (length (map docid (py_slice_to ranking k))))"
    using merge_top_ranked [of "py_slice_to ranking k" 1 "[]" "{}"]
    by (simp add: ranked_from_Nil)
  then show ?thesis
    using merge_rest_ranked [of original_ranking 1 "map docid (py_slice_to ranking k)"
        "set (map docid (py_slice_to ranking k))"]
    by (simp add: merge_results_def merged_ids_def)
qed

lemma pairwise_rerank_merged:
  assumes "pairwise_rerank llm generate heappush heappop method k query ranking = Inr results"
  shows "\<exists>ranking1. results = merge_results ranking1 ranking k"
  using assms
  by (auto simp: pairwise_rerank_def split: if_splits sum.splits prod.splits)

text \<open>
  C10. Pairwise output shape: whenever \<^verbatim>\<open>PairwiseLlmRanker.rerank\<close> returns a list, every
  entry of it, reranked or not, has \<^verbatim>\<open>text\<close> equal to \<^verbatim>\<open>None\<close> and \<^verbatim>\<open>score\<close> equal to
  minus its 1-based position: the scores are -1, -2, ..., -n in output order.
\<close>

theorem pairwise_output_shape:
  assumes "pairwise_rerank llm generate heappush heappop method k query ranking = Inr results"
    and "i < length results"
  shows "doc_text (results ! i) = None \<and> score (results ! i) = - (of_nat i + 1)"
proof -
  obtain ranking1 where "results = merge_results ranking1 ranking k"
    using pairwise_rerank_merged [OF assms(1)] by blast
  then obtain ids where r: "results = ranked_from 1 ids"
    by (simp add: merge_results_ranked)
  then have "i < length ids" using assms(2) by (simp add: length_ranked_from)
  then show ?thesis
    by (simp add: r nth_ranked_from)
qed

theorem pairwise_output_shape_witness:
  "pairwise_rerank (\<lambda>n input_texts. [cps ''Passage B'', cps ''Passage A'']) (\<lambda>prompts. [])
      (\<lambda>calls heap entry. (heap, calls)) (\<lambda>calls heap. Inl IndexError) (cps ''bubblesort'') 3 []
      [\<lparr>docid = 1 :: nat, score = 0, doc_text = Some (cps ''a'')\<rparr>,
       \<lparr>docid = 2, score = 0, doc_text = Some (cps ''b'')\<rparr>,
       \<lparr>docid = 3, score = 0, doc_text = Some (cps ''c'')\<rparr>,
       \<lparr>docid = 4, score = 0, doc_text = Some (cps ''d'')\<rparr>]
    = Inr [\<lparr>docid = 3, score = - 1, doc_text = None\<rparr>, \<lparr>docid = 2, score = - 2, doc_text = None\<rparr>,
           \<lparr>docid = 1, score = - 3, doc_text = None\<rparr>, \<lparr>docid = 4, score = - 4, doc_text = None\<rparr>] \<and>
   doc_text ([\<lparr>docid = 3 :: nat, score = - 1, doc_text = None\<rparr>, \<lparr>docid = 2, score = - 2, doc_text = None\<rparr>,
           \<lparr>docid = 1, score = - 3, doc_text = None\<rparr>, \<lparr>docid = 4, score = - 4, doc_text = None\<rparr>] ! 3) = None \<and>
   score ([\<lparr>docid = 3 :: nat, score = - 1, doc_text = None\<rparr>, \<lparr>docid = 2, score = - 2, doc_text = None\<rparr>,
           \<lparr>docid = 1, score = - 3, doc_text = None\<rparr>, \<lparr>docid = 4, score = - 4, doc_text = None\<rparr>] ! 3) = - 4"
proof -
  have run: "pairwise_rerank (\<lambda>n input_texts. [cps ''Passage B'', cps ''Passage A'']) (\<lambda>prompts. [])
      (\<lambda>calls heap entry. (heap, calls)) (\<lambda>calls heap. Inl IndexError) (cps ''bubblesort'') 3 []
      [\<lparr>docid = 1 :: nat, score = 0, doc_text = Some (cps ''a'')\<rparr>,
       \<lparr>docid = 2, score = 0, doc_text = Some (cps ''b'')\<rparr>,
       \<lparr>docid = 3, score = 0, doc_text = Some (cps ''c'')\<rparr>,
       \<lparr>docid = 4, score = 0, doc_text = Some (cps ''d'')\<rparr>]
    = Inr [\<lparr>docid = 3, score = - 1, doc_text = None\<rparr>, \<lparr>docid = 2, score = - 2, doc_text = None\<rparr>,
           \<lparr>docid = 1, score = - 3, doc_text = None\<rparr>, \<lparr>docid = 4, score = - 4, doc_text = None\<rparr>]"
    by code_simp
  show ?thesis
    using pairwise_output_shape [OF run, of 3] run by simp
qed

text \<open>The all-pairs scoring loop adds one point per pair of documents.\<close>

lemma add_score_sum: "sum_list (map snd (add_score scores key v)) = sum_list (map snd scores) + v"
  by (induction scores) auto

lemma score_loop_sum:
  "length outputs = 2 * length doc_pairs \<Longrightarrow>
   \<exists>scores'. score_loop scores doc_pairs outputs = Inr scores' \<and>
      sum_list (map snd scores') = sum_list (map snd scores) + of_nat (length doc_pairs)"
proof (induction doc_pairs arbitrary: outputs scores)
  case Nil
  then show ?case by simp
next
  case (Cons p doc_pairs)
  obtain doc1 doc2 where p: "p = (doc1, doc2)" by (cases p)
  obtain output1 output2 rest where out: "outputs = output1 # output2 # rest"
    and len: "length rest = 2 * length doc_pairs"
    using Cons.prems by (cases outputs; cases "tl outputs") auto
  define scores1 where "scores1 =
       (if output1 = cps ''Passage A'' \<and> output2 = cps ''Passage B''
        then add_score scores (docid doc1) 1
        else if output1 = cps ''Passage B'' \<and> output2 = cps ''Passage A''
        then add_score scores (docid doc2) 1
        else add_score (add_score scores (docid doc1) (1 / 2)) (docid doc2) (1 / 2))"
  have s1: "sum_list (map snd scores1) = sum_list (map snd scores) + 1"
    by (simp add: scores1_def add_score_sum)
  have "score_loop scores (p # doc_pairs) outputs = score_loop scores1 doc_pairs rest"
    unfolding p out scores1_def by (rule score_loop.simps(4))
  moreover obtain scores' where "score_loop scores1 doc_pairs rest = Inr scores'"
    "sum_list (map snd scores') = sum_list (map snd scores1) + of_nat (length doc_pairs)"
    using Cons.IH [OF len] by blast
  ultimately show ?case using s1 by simp
qed

lemma length_combinations2: "length (combinations2 xs) = length xs choose 2"
  by (induction xs) (simp_all add: numeral_2_eq_2)

text \<open>
  C6. Score conservation in the all-pairs strategy: for a candidate list of \<open>n\<close>
  documents and any outputs of the \<open>2 * C(n,2)\<close> judgments, the scoring loop ends without
  an exception and the accumulated scores sum to \<open>C(n,2)\<close> exactly.
\<close>

theorem score_conservation:
  assumes "length (generate (pair_prompts query (combinations2 ranking))) = 2 * (length ranking choose 2)"
  shows "\<exists>scores. allpair_scores generate query ranking = Inr scores \<and>
           sum_list (map snd scores) = of_nat (length ranking choose 2)"
  using score_loop_sum [of "generate (pair_prompts query (combinations2 ranking))" "combinations2 ranking" "[]"]
    assms
  by (simp add: allpair_scores_def length_combinations2)

theorem score_conservation_witness:
  "\<exists>scores. allpair_scores (\<lambda>prompts. replicate 3 (cps ''Passage B'') @ replicate 3 (cps ''Passage A'')) []
      [\<lparr>docid = 1 :: nat, score = 0, doc_text = Some (cps ''a'')\<rparr>,
       \<lparr>docid = 2, score = 0, doc_text = Some (cps ''b'')\<rparr>,
       \<lparr>docid = 3, score = 0, doc_text = Some (cps ''c'')\<rparr>] = Inr scores \<and>
     sum_list (map snd scores) = 3"
  using score_conservation [of "\<lambda>prompts. replicate 3 (cps ''Passage B'') @ replicate 3 (cps ''Passage A'')" "[]"
      "[\<lparr>docid = 1 :: nat, score = 0, doc_text = Some (cps ''a'')\<rparr>,
       \<lparr>docid = 2, score = 0, doc_text = Some (cps ''b'')\<rparr>,
       \<lparr>docid = 3, score = 0, doc_text = Some (cps ''c'')\<rparr>]"]
  by (simp add: choose_two)

text \<open>The merged list of ids: the top ids, then the other ids in their original order.\<close>

lemma filter_not_take_distinct:
  "distinct xs \<Longrightarrow> filter (\<lambda>x. x \<notin> set (take j xs)) xs = drop j xs"
proof (induction xs arbitrary: j)
  case Nil
  then show ?case by simp
next
  case (Cons a xs)
  show ?case
  proof (cases j)
    case 0
    then show ?thesis by simp
  next
    case (Suc j')
    have "filter (\<lambda>x. x \<noteq> a \<and> x \<notin> set (take j' xs)) xs = filter (\<lambda>x. x \<notin> set (take j' xs)) xs"
      using Cons.prems by (intro filter_cong) auto
    then show ?thesis using Suc Cons by simp
  qed
qed

lemma merged_ids_distinct:
  assumes "distinct orig" "distinct tops"
  shows "distinct (merged_ids tops orig)"
  using assms by (auto simp: merged_ids_def)

lemma merged_ids_set:
  assumes "set tops \<subseteq> set orig"
  shows "set (merged_ids tops orig) = set orig"
  using assms by (auto simp: merged_ids_def)

lemma merged_ids_length:
  assumes "distinct orig" "distinct tops" "set tops \<subseteq> set orig"
  shows "length (merged_ids tops orig) = length orig"
proof -
  have "length (merged_ids tops orig) = card (set (merged_ids tops orig))"
    using merged_ids_distinct [OF assms(1,2)] by (simp add: distinct_card)
  also have "\<dots> = card (set orig)"
    by (simp add: merged_ids_set [OF assms(3)])
  also have "\<dots> = length orig"
    using assms(1) by (simp add: distinct_card)
  finally show ?thesis .
qed

lemma merged_ids_tail:
  assumes "distinct orig" and "length tops \<le> t"
  shows "drop t (merged_ids tops orig) =
         filter (\<lambda>x. x \<notin> set (take t (merged_ids tops orig))) orig"
proof -
  define rest where "rest = filter (\<lambda>x. x \<notin> set tops) orig"
  define j where "j = t - length tops"
  have d: "distinct rest" using assms(1) by (simp add: rest_def)
  have tk: "take t (merged_ids tops orig) = tops @ take j rest"
    using assms(2) by (simp add: merged_ids_def rest_def j_def)
  have dr: "drop t (merged_ids tops orig) = drop j rest"
    using assms(2) by (simp add: merged_ids_def rest_def j_def)
  have "filter (\<lambda>x. x \<notin> set (tops @ take j rest)) orig =
        filter (\<lambda>x. x \<notin> set (take j rest)) rest"
    unfolding rest_def filter_filter by (intro filter_cong) auto
  also have "\<dots> = drop j rest"
    by (rule filter_not_take_distinct [OF d])
  finally show ?thesis by (simp add: tk dr)
qed

lemma slice_bound_mono: "a \<le> b \<Longrightarrow> slice_bound a k \<le> slice_bound b k"
  by (auto simp: slice_bound_def)

text \<open>Bubble sort permutes the first documents; the all-pairs scores have distinct keys
  among the ids of the candidates.\<close>

lemma norm_index_lt: "norm_index n i = Some p \<Longrightarrow> p < n"
  by (auto simp: norm_index_def split: if_splits)

lemma bubble_inner_mset:
  "bubble_inner llm query js arr calls = Inr (arr', calls') \<Longrightarrow> mset arr' = mset arr"
proof (induction js arbitrary: arr calls)
  case Nil
  then show ?case by simp
next
  case (Cons j js)
  from Cons.prems obtain p q where p: "norm_index (length arr) j = Some p"
    and q: "norm_index (length arr) (j + 1) = Some q"
    by (auto split: option.splits)
  obtain out calls1 where c: "pairwise_compare llm calls query (snd (arr ! p)) (snd (arr ! q)) = (out, calls1)"
    by (cases "pairwise_compare llm calls query (snd (arr ! p)) (snd (arr ! q))")
  from Cons.prems p q c obtain label where l: "py_getitem out 0 = Inr label"
    by (auto split: sum.splits)
  define arr1 where "arr1 = (if label = cps ''Passage B'' then arr[p := arr ! q, q := arr ! p] else arr)"
  have "bubble_inner llm query js arr1 calls1 = Inr (arr', calls')"
    using Cons.prems p q c l by (simp add: arr1_def)
  then have "mset arr' = mset arr1" by (rule Cons.IH)
  moreover have "mset arr1 = mset arr"
    using norm_index_lt [OF p] norm_index_lt [OF q] by (simp add: arr1_def mset_swap)
  ultimately show ?case by simp
qed

lemma bubble_outer_mset:
  "bubble_outer llm query k is arr calls = Inr (arr', calls') \<Longrightarrow> mset arr' = mset arr"
proof (induction "is" arbitrary: arr calls)
  case Nil
  then show ?case by simp
next
  case (Cons i "is")
  from Cons.prems obtain arr1 calls1 where
    a: "bubble_inner llm query (py_range (k - i - 1)) arr calls = Inr (arr1, calls1)"
    and b: "bubble_outer llm query k is arr1 calls1 = Inr (arr', calls')"
    by (auto split: sum.splits)
  show ?case
    using Cons.IH [OF b] bubble_inner_mset [OF a] by simp
qed

lemma docid_top_results: "map docid (top_results arr) = map fst arr"
proof -
  have "map docid (top_results arr) = map (fst \<circ> snd) (enumerate 0 arr)"
    by (simp add: top_results_def split_def o_def)
  also have "\<dots> = map fst (map snd (enumerate 0 arr))"
    by (simp only: map_map)
  also have "\<dots> = map fst arr"
    by (simp only: map_snd_enumerate)
  finally show ?thesis .
qed

lemma bubblesort_mset:
  assumes "bubblesort llm query ranking k calls = Inr (ranking1, calls1)"
  shows "mset (map docid ranking1) = mset (map docid ranking)"
proof -
  define s where "s = slice_bound (length ranking) k"
  from assms obtain arr where
    o: "bubble_outer llm query k (py_range k) (map comparable (take s ranking)) calls = Inr (arr, calls1)"
    and r: "ranking1 = top_results arr @ drop s ranking"
    by (auto simp: bubblesort_def py_slice_to_def s_def split: sum.splits)
  have "mset (map fst arr) = mset (map fst (map comparable (take s ranking)))"
    using bubble_outer_mset [OF o] by (metis mset_map)
  also have "map fst (map comparable (take s ranking)) = map docid (take s ranking)"
    by (simp add: comparable_def o_def)
  finally have "mset (map docid ranking1) = mset (map docid (take s ranking)) + mset (map docid (drop s ranking))"
    by (simp add: r docid_top_results)
  also have "\<dots> = mset (map docid (take s ranking @ drop s ranking))"
    by (simp only: map_append mset_append)
  finally show ?thesis by (simp only: append_take_drop_id)
qed

lemma add_score_fst_set:
  "fst ` set (add_score scores key v) = insert key (fst ` set scores)"
proof (induction scores)
  case Nil
  show ?case by simp
next
  case (Cons p scores)
  obtain k' s where p: "p = (k', s)" by (cases p)
  show ?case
  proof (cases "k' = key")
    case True
    then show ?thesis by (simp add: p)
  next
    case False
    then show ?thesis using Cons.IH by (simp add: p insert_commute)
  qed
qed

lemma add_score_distinct:
  "distinct (map fst scores) \<Longrightarrow> distinct (map fst (add_score scores key v))"
proof (induction scores)
  case Nil
  show ?case by simp
next
  case (Cons p scores)
  obtain k' s where p: "p = (k', s)" by (cases p)
  show ?case
  proof (cases "k' = key")
    case True
    then show ?thesis using Cons.prems by (simp add: p)
  next
    case False
    then show ?thesis using Cons by (simp add: p add_score_fst_set)
  qed
qed

lemma score_loop_keys:
  "score_loop scores doc_pairs outputs = Inr scores' \<Longrightarrow> distinct (map fst scores) \<Longrightarrow>
   distinct (map fst scores') \<and>
   set (map fst scores') \<subseteq> set (map fst scores) \<union> docid ` fst ` set doc_pairs \<union> docid ` snd ` set doc_pairs"
proof (induction doc_pairs arbitrary: outputs scores)
  case Nil
  then show ?case by (cases outputs) auto
next
  case (Cons p doc_pairs)
  obtain doc1 doc2 where p: "p = (doc1, doc2)" by (cases p)
  show ?case
  proof (cases outputs)
    case Nil
    then show ?thesis using Cons.prems by auto
  next
    case c1: (Cons output1 rest1)
    show ?thesis
    proof (cases rest1)
      case Nil
      then show ?thesis using Cons.prems c1 p by simp
    next
      case c2: (Cons output2 rest)
      define scores1 where "scores1 =
         (if output1 = cps ''Passage A'' \<and> output2 = cps ''Passage B''
          then add_score scores (docid doc1) 1
          else if output1 = cps ''Passage B'' \<and> output2 = cps ''Passage A''
          then add_score scores (docid doc2) 1
          else add_score (add_score scores (docid doc1) (1 / 2)) (docid doc2) (1 / 2))"
      have d1: "distinct (map fst scores1)"
        using Cons.prems(2) by (simp add: scores1_def add_score_distinct)
      have s1: "set (map fst scores1) \<subseteq> set (map fst scores) \<union> {docid doc1, docid doc2}"
        unfolding scores1_def set_map by (simp add: add_score_fst_set) blast
      have "score_loop scores (p # doc_pairs) outputs = score_loop scores1 doc_pairs rest"
        unfolding p c1 c2 scores1_def by (rule score_loop.simps(4))
      then have "score_loop scores1 doc_pairs rest = Inr scores'"
        using Cons.prems(1) by simp
      from Cons.IH [OF this d1]
      have d: "distinct (map fst scores')"
        and s: "set (map fst scores') \<subseteq> set (map fst scores1) \<union> docid ` fst ` set doc_pairs \<union> docid ` snd ` set doc_pairs"
        by simp_all
      have "set (map fst scores') \<subseteq> set (map fst scores) \<union> docid ` fst ` set (p # doc_pairs) \<union> docid ` snd ` set (p # doc_pairs)"
      proof
        fix x assume "x \<in> set (map fst scores')"
        then have "x \<in> set (map fst scores1) \<or> x \<in> docid ` fst ` set doc_pairs \<or> x \<in> docid ` snd ` set doc_pairs"
          using s by blast
        moreover have "x \<in> set (map fst scores) \<or> x = docid doc1 \<or> x = docid doc2" if "x \<in> set (map fst scores1)"
          using s1 that by blast
        ultimately show "x \<in> set (map fst scores) \<union> docid ` fst ` set (p # doc_pairs) \<union> docid ` snd ` set (p # doc_pairs)"
          unfolding p by (simp add: image_iff) blast
      qed
      then show ?thesis using d by simp
    qed
  qed
qed

lemma combinations2_members:
  "(a, b) \<in> set (combinations2 xs) \<Longrightarrow> a \<in> set xs \<and> b \<in> set xs"
  by (induction xs) auto

lemma mset_sorted_reverse: "mset (sorted_reverse key xs) = mset xs"
  by (simp add: sorted_reverse_def)

lemma allpair_ids:
  assumes "allpair generate query ranking = Inr ranking1"
  shows "distinct (map docid ranking1) \<and> set (map docid ranking1) \<subseteq> set (map docid ranking)"
proof -
  from assms obtain scores where
    sc: "allpair_scores generate query ranking = Inr scores"
    and r: "ranking1 = sorted_reverse score (map (\<lambda>(d, s). \<lparr>docid = d, score = s, doc_text = None\<rparr>) scores)"
    by (cases "allpair_scores generate query ranking") (simp_all add: allpair_def)
  have sl: "score_loop [] (combinations2 ranking) (generate (pair_prompts query (combinations2 ranking))) = Inr scores"
    using sc by (simp add: allpair_scores_def)
  have k: "distinct (map fst scores)"
    and sub: "set (map fst scores) \<subseteq> set (map fst []) \<union> docid ` fst ` set (combinations2 ranking) \<union> docid ` snd ` set (combinations2 ranking)"
    using score_loop_keys [OF sl] by simp_all
  have "map docid (map (\<lambda>(d, s). \<lparr>docid = d, score = s, doc_text = None\<rparr>) scores) = map fst scores"
    by (simp add: o_def split_def)
  moreover have "mset (map docid ranking1) =
      mset (map docid (map (\<lambda>(d, s). \<lparr>docid = d, score = s, doc_text = None\<rparr>) scores))"
    unfolding r sorted_reverse_def by (simp only: mset_map mset_rev mset_sort)
  ultimately have m: "mset (map docid ranking1) = mset (map fst scores)"
    by (simp only:)
  have d: "distinct (map docid ranking1)"
    using k mset_eq_imp_distinct_iff [OF m] by simp
  have e: "set (map docid ranking1) = set (map fst scores)"
    using mset_eq_setD [OF m] .
  have "set (map fst scores) \<subseteq> set (map docid ranking)"
  proof
    fix x assume "x \<in> set (map fst scores)"
    then have "x \<in> docid ` fst ` set (combinations2 ranking) \<or> x \<in> docid ` snd ` set (combinations2 ranking)"
      using sub by auto
    then obtain a b where "(a, b) \<in> set (combinations2 ranking)" and "x = docid a \<or> x = docid b"
      by (elim disjE imageE) (metis prod.collapse)+
    then show "x \<in> set (map docid ranking)"
      using combinations2_members [of a b ranking] by auto
  qed
  then show ?thesis using d e by simp
qed

lemma heapSort_returns_empty:
  assumes "heapSort llm heappush heappop arr k calls = Inr (arr', calls')"
  shows "arr = [] \<and> arr' = []"
proof -
  have e: "arr = []"
    using assms heapSort_never_returns [of arr llm heappush heappop k calls] by (cases "arr = []") auto
  then have "heap_pop_n heappop (nat k) [] calls = Inr (arr', calls')"
    using assms by (simp add: heapSort_def)
  then have "arr' = []"
    by (cases "nat k") auto
  then show ?thesis using e by simp
qed

lemma pairwise_rerank_top:
  assumes "pairwise_rerank llm generate heappush heappop method k query ranking = Inr results"
    and "distinct (map docid ranking)"
  shows "\<exists>ranking1. results = merge_results ranking1 ranking k \<and> distinct (map docid ranking1) \<and>
           set (map docid ranking1) \<subseteq> set (map docid ranking)"
proof -
  consider
      (a) ranking1 where "allpair generate query ranking = Inr ranking1" "results = merge_results ranking1 ranking k"
    | (h) arr calls where "heapSort llm heappush heappop (map comparable ranking) k 0 = Inr (arr, calls)"
        "results = merge_results (top_results (rev arr)) ranking k"
    | (b) ranking1 calls where "bubblesort llm query ranking k 0 = Inr (ranking1, calls)"
        "results = merge_results ranking1 ranking k"
    using assms(1) by (auto simp: pairwise_rerank_def split: if_splits sum.splits prod.splits)
  then show ?thesis
  proof cases
    case a
    then show ?thesis using allpair_ids by blast
  next
    case h
    then have "arr = []" using heapSort_returns_empty by blast
    then have "map docid (top_results (rev arr)) = []" by (simp add: docid_top_results)
    then show ?thesis using h(2) by (intro exI [of _ "top_results (rev arr)"]) simp
  next
    case b
    have m: "mset (map docid ranking1) = mset (map docid ranking)"
      using bubblesort_mset [OF b(1)] .
    have "distinct (map docid ranking1)"
      using assms(2) mset_eq_imp_distinct_iff [OF m] by simp
    moreover have "set (map docid ranking1) = set (map docid ranking)"
      using mset_eq_setD [OF m] .
    ultimately show ?thesis using b(2) by blast
  qed
qed

text \<open>
  Merge invariants of the lists that are returned: for every method, heap operations,
  model and \<open>k\<close>, and every candidate list with unique docids, a list returned by
  \<^verbatim>\<open>PairwiseLlmRanker.rerank\<close> has the length of the input and the same set of docids,
  and behind the first \<open>k\<close> entries (Python's \<^verbatim>\<open>[:k]\<close>) come exactly the input documents
  that are not among them, in the order of the input.
\<close>

theorem merge_invariants:
  assumes "pairwise_rerank llm generate heappush heappop method k query ranking = Inr results"
    and "distinct (map docid ranking)"
  shows "length results = length ranking \<and>
         set (map docid results) = set (map docid ranking) \<and>
         map docid (drop (slice_bound (length ranking) k) results) =
           filter (\<lambda>x. x \<notin> set (map docid (take (slice_bound (length ranking) k) results)))
             (map docid ranking)"
proof -
  obtain ranking1 where res: "results = merge_results ranking1 ranking k"
    and d1: "distinct (map docid ranking1)"
    and s1: "set (map docid ranking1) \<subseteq> set (map docid ranking)"
    using pairwise_rerank_top [OF assms] by blast
  define tops where "tops = map docid (py_slice_to ranking1 k)"
  define t where "t = slice_bound (length ranking) k"
  have tk: "tops = take (slice_bound (length ranking1) k) (map docid ranking1)"
    by (simp add: tops_def py_slice_to_def take_map)
  have dt: "distinct tops" using d1 by (simp add: tk)
  have st: "set tops \<subseteq> set (map docid ranking)"
    using s1 set_take_subset [of "slice_bound (length ranking1) k" "map docid ranking1"]
    unfolding tk by blast
  have "length ranking1 = card (set (map docid ranking1))"
    using d1 distinct_card [of "map docid ranking1"] by simp
  also have "\<dots> \<le> card (set (map docid ranking))"
    using s1 by (intro card_mono) auto
  also have "\<dots> = length ranking"
    using assms(2) distinct_card [of "map docid ranking"] by simp
  finally have "length ranking1 \<le> length ranking" .
  then have lt: "length tops \<le> t"
    using slice_bound_mono [of "length ranking1" "length ranking" k] slice_bound_le [of "length ranking1" k]
    by (simp add: tk t_def)
  have ids: "map docid results = merged_ids tops (map docid ranking)"
    by (simp add: res merge_results_ranked docid_ranked_from tops_def)
  have "length results = length (map docid results)" by simp
  also have "\<dots> = length ranking"
    unfolding ids using merged_ids_length [OF assms(2) dt st] by simp
  finally have a: "length results = length ranking" .
  have b: "set (map docid results) = set (map docid ranking)"
    unfolding ids by (rule merged_ids_set [OF st])
  have "drop t (map docid results) = filter (\<lambda>x. x \<notin> set (take t (map docid results))) (map docid ranking)"
    unfolding ids by (rule merged_ids_tail [OF assms(2) lt])
  then have c: "map docid (drop t results) =
      filter (\<lambda>x. x \<notin> set (map docid (take t results))) (map docid ranking)"
    by (simp add: drop_map take_map)
  show ?thesis using a b c by (simp add: t_def)
qed

theorem merge_invariants_witness:
  "pairwise_rerank (\<lambda>n input_texts. [cps ''Passage B'', cps ''Passage A'']) (\<lambda>prompts. [])
      (\<lambda>calls heap entry. (heap, calls)) (\<lambda>calls heap. Inl IndexError) (cps ''bubblesort'') 3 []
      example_ranking
    = Inr (ranked_from 1 [3, 2, 1, 4]) \<and>
   length (ranked_from 1 [3, 2, 1, 4 :: nat]) = 4 \<and>
   set (map docid (ranked_from 1 [3, 2, 1, 4 :: nat])) = {1, 2, 3, 4} \<and>
   map docid (drop 3 (ranked_from 1 [3, 2, 1, 4 :: nat])) = [4] \<and>
   pairwise_rerank (\<lambda>n input_texts. []) (\<lambda>prompts. replicate 12 (cps ''Passage B''))
      (\<lambda>calls heap entry. (heap, calls)) (\<lambda>calls heap. Inl IndexError) (cps ''allpair'') 2 []
      example_ranking
    = Inr (ranked_from 1 [1, 2, 3, 4]) \<and>
   map docid (drop 2 (ranked_from 1 [1, 2, 3, 4 :: nat])) = [3, 4]"
proof -
  have run1: "pairwise_rerank (\<lambda>n input_texts. [cps ''Passage B'', cps ''Passage A'']) (\<lambda>prompts. [])
      (\<lambda>calls heap entry. (heap, calls)) (\<lambda>calls heap. Inl IndexError) (cps ''bubblesort'') 3 []
      example_ranking = Inr (ranked_from 1 [3, 2, 1, 4])"
    by code_simp
  have run2: "pairwise_rerank (\<lambda>n input_texts. []) (\<lambda>prompts. replicate 12 (cps ''Passage B''))
      (\<lambda>calls heap entry. (heap, calls)) (\<lambda>calls heap. Inl IndexError) (cps ''allpair'') 2 []
      example_ranking = Inr (ranked_from 1 [1, 2, 3, 4])"
    by code_simp
  have d: "distinct (map docid example_ranking)"
    by (simp add: example_ranking_def)
  have s: "set (map docid example_ranking) = {1, 2, 3, 4}"
    by (auto simp: example_ranking_def)
  have l: "length example_ranking = 4"
    by (simp add: example_ranking_def)
  have sb3: "slice_bound (length example_ranking) 3 = 3"
    and sb2: "slice_bound (length example_ranking) 2 = 2"
    by (simp_all add: l slice_bound_def)
  have f: "filter (\<lambda>x. x \<notin> set (map docid (take 3 (ranked_from 1 [3, 2, 1, 4 :: nat]))))
             (map docid example_ranking) = [4]"
    by (simp add: docid_ranked_from take_map [symmetric] example_ranking_def)
  have g: "filter (\<lambda>x. x \<notin> set (map docid (take 2 (ranked_from 1 [1, 2, 3, 4 :: nat]))))
             (map docid example_ranking) = [3, 4]"
    by (simp add: docid_ranked_from take_map [symmetric] example_ranking_def)
  note m1 = merge_invariants [OF run1 d]
  note m2 = merge_invariants [OF run2 d]
  have a: "length (ranked_from 1 [3, 2, 1, 4 :: nat]) = 4"
    using m1 [THEN conjunct1] by (simp only: l)
  have b: "set (map docid (ranked_from 1 [3, 2, 1, 4 :: nat])) = {1, 2, 3, 4}"
    using m1 [THEN conjunct2, THEN conjunct1] by (simp only: s)
  have c: "map docid (drop 3 (ranked_from 1 [3, 2, 1, 4 :: nat])) = [4]"
    using m1 [THEN conjunct2, THEN conjunct2] by (simp only: sb3 f)
  have e: "map docid (drop 2 (ranked_from 1 [1, 2, 3, 4 :: nat])) = [3, 4]"
    using m2 [THEN conjunct2, THEN conjunct2] by (simp only: sb2 g)
  show ?thesis
    using run1 run2 a b c e by (intro conjI)
qed

text \<open>
  C4. The merge invariants are claimed for every strategy (allpair, heapsort,
  bubblesort) and every candidate list with unique docids: the returned list has the
  length and the docids of the input and keeps the order of the tail. With the method
  heapsort \<^verbatim>\<open>rerank\<close> returns no list on any ranking that is not empty, whatever the
  model, \<open>k\<close> and the heap operations are; with the method bubblesort and the default
  \<open>k = 10\<close> it raises \<^verbatim>\<open>IndexError\<close> on four candidates, since the inner loop reads
  \<^verbatim>\<open>arr[j + 1]\<close> up to \<open>j + 1 = k - 1\<close> in an array of four.
\<close>

theorem rerank_returns_no_list:
  "pairwise_rerank llm generate heappush heappop (cps ''heapsort'') k query (d # ranking) \<noteq> Inr results \<and>
   pairwise_rerank (\<lambda>n input_texts. [cps ''Passage A'', cps ''Passage B'']) generate heappush heappop
     (cps ''bubblesort'') 10 query example_ranking = Inl IndexError"
proof -
  obtain e where "heapSort llm heappush heappop (map comparable (d # ranking)) k 0 = Inl e"
    using heapSort_never_returns [of "map comparable (d # ranking)" llm heappush heappop k 0] by auto
  then have a: "pairwise_rerank llm generate heappush heappop (cps ''heapsort'') k query (d # ranking) \<noteq> Inr results"
    by (simp add: pairwise_rerank_def cps_def)
  have b: "pairwise_rerank (\<lambda>n input_texts. [cps ''Passage A'', cps ''Passage B'']) generate heappush heappop
     (cps ''bubblesort'') 10 query example_ranking = Inl IndexError"
    by code_simp
  show ?thesis using a b by simp
qed

end
